theory Spec2Isabelle
  imports Complex_Main
begin

section \<open>The in-game clock of \<open>src/app/page.tsx\<close>\<close>

text \<open>
  The clock derivation of the dashboard consists of the pure functions
  \<open>getMinecraftPhaseFromMinutes\<close>, \<open>normalizeMinecraftSeconds\<close>,
  \<open>deriveLiveMinecraftClock\<close> and \<open>deriveMinecraftClockAtDate\<close>. They are embedded
  below in the order of the source.

  Modelling decisions.
  \<^item> A JavaScript \<open>number\<close> is an IEEE double. A finite double is a rational number, and
    the result of \<open>+\<close>, \<open>-\<close>, \<open>*\<close> and \<open>/\<close> is the exact result rounded to the nearest
    double, ties to the even mantissa: the function \<open>dbl\<close> below, applied at every
    arithmetic operation of the source. The remainder \<open>%\<close>, \<open>Math.floor\<close> and
    \<open>Math.max\<close> are exact. Products of small integer literals (\<open>24 * 60\<close>) are exact and
    written without \<open>dbl\<close>. The exponent of a double is not bounded here; the sums of
    this program with 1440 and 86400 absorb what would underflow, and nothing on these
    paths overflows. \<open>NaN\<close> and the infinities are not modelled as arguments: the query
    instant is a finite number, the target \<open>Date\<close> a valid one. \<open>NaN\<close> as the result of a
    failed parse is \<open>None\<close>.
  \<^item> A number that the code only ever holds as an integer (result of \<open>Math.floor\<close>, of
    \<open>parseInt\<close>, the time value of a \<open>Date\<close>) is an \<^typ>\<open>int\<close>.
  \<^item> A JavaScript string is a \<^typ>\<open>string\<close>, so only code units below 256 occur.
  \<^item> \<open>string | null\<close> is \<^typ>\<open>string option\<close>, \<open>SpawnTimerRow | undefined\<close> is an
    optional row, and a \<open>null\<close> result is \<open>None\<close>.
  \<^item> \<open>new Date(s).getTime()\<close> is a function of the platform, not of this repository:
    it is the parameter \<open>dateGetTime\<close> of the two derivations, with \<open>None\<close> for \<open>NaN\<close>.
\<close>

subsection \<open>Numbers\<close>

text \<open>Rounding to the nearest integer, a tie to the even one.\<close>

definition roundHalfEven :: "rat \<Rightarrow> int" where
  "roundHalfEven x =
     (let f = \<lfloor>x\<rfloor>; d = x - of_int f
      in if d < 1 / 2 then f else if 1 / 2 < d then f + 1 else if even f then f else f + 1)"

text \<open>
  Rounding of a positive rational to 53 significant bits: the number is scaled by powers
  of two into \<open>[2^52, 2^53)\<close>, rounded to an integer there, and scaled back.
\<close>

function roundPositive :: "rat \<Rightarrow> rat" where
  "roundPositive x =
     (if x \<le> 0 then 0
      else if 2 ^ 53 \<le> x then 2 * roundPositive (x / 2)
      else if x < 2 ^ 52 then roundPositive (2 * x) / 2
      else of_int (roundHalfEven x))"
  by pat_completeness auto
termination
proof (relation "measure (\<lambda>x. nat \<lceil>x / 2 ^ 52\<rceil> + 2 * nat \<lceil>2 ^ 52 / x\<rceil>)")
  show "wf (measure (\<lambda>x::rat. nat \<lceil>x / 2 ^ 52\<rceil> + 2 * nat \<lceil>2 ^ 52 / x\<rceil>))" by simp
next
  fix x :: rat
  assume "\<not> x \<le> 0" and big: "2 ^ 53 \<le> x"
  then have pos: "0 < x" by simp
  have a: "\<lceil>x / 2 / 2 ^ 52\<rceil> < \<lceil>x / 2 ^ 52\<rceil>"
  proof -
    have "2 \<le> x / 2 ^ 52" using big by simp
    then have "x / 2 / 2 ^ 52 \<le> x / 2 ^ 52 - 1" by simp
    then have "\<lceil>x / 2 / 2 ^ 52\<rceil> \<le> \<lceil>x / 2 ^ 52 - 1\<rceil>" by (rule ceiling_mono)
    then show ?thesis by simp
  qed
  have "0 < 2 ^ 52 / x" "2 ^ 52 / x \<le> 1" "0 < 2 ^ 52 / (x / 2)" "2 ^ 52 / (x / 2) \<le> 1"
    using big pos by (simp_all add: field_simps)
  then have b: "\<lceil>2 ^ 52 / x\<rceil> = 1" "\<lceil>2 ^ 52 / (x / 2)\<rceil> = 1"
    by (simp_all only: ceiling_eq_iff) simp_all
  have c: "0 < \<lceil>x / 2 / 2 ^ 52\<rceil>" using pos by (simp add: less_ceiling_iff)
  have "nat \<lceil>x / 2 / 2 ^ 52\<rceil> < nat \<lceil>x / 2 ^ 52\<rceil>" using a c by linarith
  moreover have "nat \<lceil>2 ^ 52 / x\<rceil> = 1" "nat \<lceil>2 ^ 52 / (x / 2)\<rceil> = 1" using b by linarith+
  ultimately have "nat \<lceil>x / 2 / 2 ^ 52\<rceil> + 2 * nat \<lceil>2 ^ 52 / (x / 2)\<rceil>
      < nat \<lceil>x / 2 ^ 52\<rceil> + 2 * nat \<lceil>2 ^ 52 / x\<rceil>" by linarith
  then show "(x / 2, x) \<in> measure (\<lambda>x. nat \<lceil>x / 2 ^ 52\<rceil> + 2 * nat \<lceil>2 ^ 52 / x\<rceil>)"
    by (simp only: in_measure)
next
  fix x :: rat
  assume "\<not> x \<le> 0" and "\<not> 2 ^ 53 \<le> x" and small: "x < 2 ^ 52"
  then have pos: "0 < x" by simp
  have a: "\<lceil>2 ^ 52 / (2 * x)\<rceil> < \<lceil>2 ^ 52 / x\<rceil>"
  proof -
    have "1 < 2 ^ 52 / x" using small pos by simp
    then have two: "2 \<le> \<lceil>2 ^ 52 / x\<rceil>" by (simp add: le_ceiling_iff less_ceiling_iff)
    have "2 ^ 52 / (2 * x) = 2 ^ 52 / x / 2" by simp
    also have "\<dots> \<le> of_int \<lceil>2 ^ 52 / x\<rceil> / 2" by (simp add: divide_right_mono)
    also have "\<dots> \<le> of_int (\<lceil>2 ^ 52 / x\<rceil> - 1)" using two by simp
    finally show ?thesis by (simp add: ceiling_less_iff ceiling_le_iff)
  qed
  have "0 < x / 2 ^ 52" "x / 2 ^ 52 \<le> 1" "0 < 2 * x / 2 ^ 52" "2 * x / 2 ^ 52 \<le> 2"
    using small pos by simp_all
  then have b: "\<lceil>x / 2 ^ 52\<rceil> = 1" "\<lceil>2 * x / 2 ^ 52\<rceil> \<le> 2"
    by (simp_all add: ceiling_eq_iff ceiling_le_iff)
  have c: "0 < \<lceil>2 ^ 52 / (2 * x)\<rceil>" using pos by (simp add: less_ceiling_iff)
  have "nat \<lceil>2 * x / 2 ^ 52\<rceil> \<le> 2" using b(2) by linarith
  moreover have "nat \<lceil>2 ^ 52 / (2 * x)\<rceil> < nat \<lceil>2 ^ 52 / x\<rceil>" using a c by linarith
  moreover have "nat \<lceil>x / 2 ^ 52\<rceil> = 1" using b(1) by linarith
  ultimately have "nat \<lceil>2 * x / 2 ^ 52\<rceil> + 2 * nat \<lceil>2 ^ 52 / (2 * x)\<rceil>
      < nat \<lceil>x / 2 ^ 52\<rceil> + 2 * nat \<lceil>2 ^ 52 / x\<rceil>" by linarith
  then show "(2 * x, x) \<in> measure (\<lambda>x. nat \<lceil>x / 2 ^ 52\<rceil> + 2 * nat \<lceil>2 ^ 52 / x\<rceil>)"
    by (simp only: in_measure)
qed

text \<open>The double nearest to a rational: the result of an arithmetic operation.\<close>

definition dbl :: "rat \<Rightarrow> rat" where
  "dbl x = (if x < 0 then - roundPositive (- x) else roundPositive x)"

text \<open>\<open>Math.trunc\<close>: rounding towards zero.\<close>

definition jsTrunc :: "rat \<Rightarrow> int" where
  "jsTrunc q = (if 0 \<le> q then \<lfloor>q\<rfloor> else \<lceil>q\<rceil>)"

text \<open>
  The operator \<open>%\<close>: the remainder of the truncating division, which has the sign of the
  dividend. The divisors of this program are non-zero constants.
\<close>

definition jsRem :: "rat \<Rightarrow> rat \<Rightarrow> rat" where
  "jsRem x y = x - y * of_int (jsTrunc (x / y))"

text \<open>The same operator on numbers that are integers.\<close>

definition jsRemInt :: "int \<Rightarrow> int \<Rightarrow> int" where
  "jsRemInt k l = sgn k * (\<bar>k\<bar> mod \<bar>l\<bar>)"

text \<open>\<open>Number.prototype.toString\<close> on an integer (below \<open>10^21\<close>, where it is plain decimal).\<close>

definition digitChar :: "nat \<Rightarrow> char" where
  "digitChar d = char_of (48 + d)"

fun natToString :: "nat \<Rightarrow> string" where
  "natToString n =
     (if n < 10 then [digitChar n] else natToString (n div 10) @ [digitChar (n mod 10)])"

definition numberToString :: "int \<Rightarrow> string" where
  "numberToString k =
     (if k < 0 then CHR ''-'' # natToString (nat (- k)) else natToString (nat k))"

text \<open>\<open>String.prototype.padStart\<close> with a filler of one character.\<close>

definition padStart :: "nat \<Rightarrow> char \<Rightarrow> string \<Rightarrow> string" where
  "padStart n c s = replicate (n - length s) c @ s"

text \<open>\<open>String.prototype.split\<close> with a separator of one character.\<close>

fun split :: "char \<Rightarrow> string \<Rightarrow> string list" where
  "split c [] = [[]]"
| "split c (x # xs) =
     (if x = c then [] # split c xs
      else (case split c xs of [] \<Rightarrow> [[x]] | s # ss \<Rightarrow> (x # s) # ss))"

text \<open>
  \<open>Number.parseInt(s, 10)\<close>: leading white space is skipped, one sign is read, then the
  longest run of decimal digits; what follows is ignored. No digit gives \<open>NaN\<close>.
\<close>

definition isWhiteSpace :: "char \<Rightarrow> bool" where
  "isWhiteSpace c = ((of_char c :: nat) \<in> {9, 10, 11, 12, 13, 32, 160})"

definition isDigit :: "char \<Rightarrow> bool" where
  "isDigit c = (48 \<le> (of_char c :: nat) \<and> (of_char c :: nat) \<le> 57)"

definition digitsValue :: "string \<Rightarrow> nat" where
  "digitsValue ds = foldl (\<lambda>acc c. 10 * acc + (of_char c - 48)) 0 ds"

definition parseInt :: "string \<Rightarrow> int option" where
  "parseInt s =
     (let t = dropWhile isWhiteSpace s;
          sign = (case t of c # _ \<Rightarrow> if c = CHR ''-'' then - 1 else 1 | [] \<Rightarrow> (1::int));
          u = (case t of c # r \<Rightarrow> if c = CHR ''-'' \<or> c = CHR ''+'' then r else t | [] \<Rightarrow> []);
          ds = takeWhile isDigit u
      in if ds = [] then None else Some (sign * int (digitsValue ds)))"

subsection \<open>Data\<close>

text \<open>
  The fields \<open>id\<close> and \<open>text\<close> of the source are \<open>row_id\<close> and \<open>row_text\<close> here;
  the clock reads neither.
\<close>

record SpawnTimerRow =
  row_id :: "(rat + string) option"
  row_text :: "string option"
  next_spawn :: "string option"
  ingame_time :: "string option"
  ingame_time_saved_at :: "string option"

text \<open>
  The field \<open>phase\<close> of the source is a string that is one of four literals: \<open>"Aube"\<close>
  (dawn), \<open>"Jour"\<close> (day), \<open>"Crepuscule"\<close> (dusk, with an accent in the source) and
  \<open>"Nuit"\<close> (night).
\<close>

datatype phaseName = Aube | Jour | Crepuscule | Nuit

record MinecraftPhaseDetails =
  phase :: phaseName
  timeLabel :: "string option"

record LiveClock =
  clock :: string
  phaseDetails :: MinecraftPhaseDetails

subsection \<open>Constants\<close>

definition MINECRAFT_HOUR_SECONDS :: rat where
  "MINECRAFT_HOUR_SECONDS = 50"

definition MINECRAFT_MINUTES_PER_DAY :: rat where
  "MINECRAFT_MINUTES_PER_DAY = 24 * 60"

definition MINECRAFT_SECONDS_PER_REAL_SECOND :: rat where
  "MINECRAFT_SECONDS_PER_REAL_SECOND = dbl ((60 * 60) / MINECRAFT_HOUR_SECONDS)"

definition MINECRAFT_SECONDS_PER_DAY :: rat where
  "MINECRAFT_SECONDS_PER_DAY = MINECRAFT_MINUTES_PER_DAY * 60"

subsection \<open>Functions\<close>

definition formatTwoDigits :: "int \<Rightarrow> string" where
  "formatTwoDigits v = padStart 2 CHR ''0'' (numberToString v)"

text \<open>The constant \<open>normalizedMinutes\<close> of \<open>getMinecraftPhaseFromMinutes\<close>.\<close>

definition normalizedMinutes :: "rat \<Rightarrow> rat" where
  "normalizedMinutes minutes =
     jsRem (dbl (jsRem minutes MINECRAFT_MINUTES_PER_DAY + MINECRAFT_MINUTES_PER_DAY))
       MINECRAFT_MINUTES_PER_DAY"

definition getMinecraftPhaseFromMinutes :: "rat \<Rightarrow> MinecraftPhaseDetails" where
  "getMinecraftPhaseFromMinutes minutes =
     (let nm = normalizedMinutes minutes;
          label = formatTwoDigits \<lfloor>dbl (nm / 60)\<rfloor> @ '':'' @ formatTwoDigits \<lfloor>jsRem nm 60\<rfloor>
      in if nm \<ge> 273 \<and> nm < 387 then \<lparr>phase = Aube, timeLabel = Some label\<rparr>
         else if nm \<ge> 387 \<and> nm < 1057 then \<lparr>phase = Jour, timeLabel = Some label\<rparr>
         else if nm \<ge> 1057 \<and> nm < 1188 then \<lparr>phase = Crepuscule, timeLabel = Some label\<rparr>
         else \<lparr>phase = Nuit, timeLabel = Some label\<rparr>)"

definition getPhasePreviewFromMinutes :: "rat \<Rightarrow> MinecraftPhaseDetails" where
  "getPhasePreviewFromMinutes totalMinutes = getMinecraftPhaseFromMinutes totalMinutes"

definition normalizeMinecraftSeconds :: "rat \<Rightarrow> rat" where
  "normalizeMinecraftSeconds seconds =
     jsRem (dbl (jsRem seconds MINECRAFT_SECONDS_PER_DAY + MINECRAFT_SECONDS_PER_DAY))
       MINECRAFT_SECONDS_PER_DAY"

text \<open>
  \<open>row?.field\<close>: the field of a row that may be absent. A value is falsy when it is
  \<open>undefined\<close>, \<open>null\<close> or the empty string.
\<close>

definition optField :: "SpawnTimerRow option \<Rightarrow> (SpawnTimerRow \<Rightarrow> string option) \<Rightarrow> string option" where
  "optField row f = (case row of None \<Rightarrow> None | Some r \<Rightarrow> f r)"

definition falsy :: "string option \<Rightarrow> bool" where
  "falsy v = (case v of None \<Rightarrow> True | Some s \<Rightarrow> s = [])"

text \<open>
  The characters of a value that the code uses as a string; the code does so only after
  it has seen that the value is not falsy.
\<close>

definition stringOf :: "string option \<Rightarrow> string" where
  "stringOf v = (case v of None \<Rightarrow> [] | Some s \<Rightarrow> s)"

text \<open>The array destructuring \<open>[hoursPart, minutesPart] = ...\<close>: a missing element is \<open>undefined\<close>.\<close>

definition element :: "string list \<Rightarrow> nat \<Rightarrow> string option" where
  "element xs i = (if i < length xs then Some (xs ! i) else None)"

text \<open>
  The two derivations validate the row by the same lines (117 to 145 and 169 to 196 of
  the source) and then compute. The computing lines are given names of their own here:
  \<open>elapsedRealSeconds\<close>, \<open>totalSeconds\<close> and \<open>totalMinutes\<close> are the constants of these
  names in the source, \<open>liveClockFrom\<close> is lines 152 to 162.
\<close>

definition elapsedRealSeconds :: "int \<Rightarrow> rat \<Rightarrow> rat" where
  "elapsedRealSeconds savedAtMs nowMs = max 0 (dbl (dbl (nowMs - of_int savedAtMs) / 1000))"

definition totalSeconds :: "int \<Rightarrow> int \<Rightarrow> int \<Rightarrow> rat \<Rightarrow> rat" where
  "totalSeconds hours minutes savedAtMs nowMs =
     (let baseSeconds = dbl (dbl (dbl (of_int hours * 60) + of_int minutes) * 60);
          elapsedMinecraftSeconds =
            dbl (elapsedRealSeconds savedAtMs nowMs * MINECRAFT_SECONDS_PER_REAL_SECOND)
      in dbl (baseSeconds + elapsedMinecraftSeconds))"

definition liveClockFrom :: "rat \<Rightarrow> LiveClock" where
  "liveClockFrom seconds =
     (let normalizedSeconds = normalizeMinecraftSeconds seconds;
          currentHours = jsRemInt \<lfloor>dbl (normalizedSeconds / 3600)\<rfloor> 24;
          currentMinutes = \<lfloor>dbl (jsRem normalizedSeconds 3600 / 60)\<rfloor>
      in \<lparr>clock = formatTwoDigits currentHours @ '':'' @ formatTwoDigits currentMinutes,
          phaseDetails = getPhasePreviewFromMinutes (dbl (normalizedSeconds / 60))\<rparr>)"

definition deriveLiveMinecraftClock ::
  "(string \<Rightarrow> int option) \<Rightarrow> SpawnTimerRow option \<Rightarrow> rat \<Rightarrow> LiveClock option" where
  "deriveLiveMinecraftClock dateGetTime row nowMs =
     (if falsy (optField row ingame_time) \<or> falsy (optField row ingame_time_saved_at) then None
      else (case dateGetTime (stringOf (optField row ingame_time_saved_at)) of
        None \<Rightarrow> None
      | Some savedAtMs \<Rightarrow>
          let parts = split CHR '':'' (stringOf (optField row ingame_time));
              hoursPart = element parts 0;
              minutesPart = element parts 1
          in if falsy hoursPart \<or> falsy minutesPart then None
             else (case (parseInt (stringOf hoursPart), parseInt (stringOf minutesPart)) of
               (Some hours, Some minutes) \<Rightarrow>
                 if hours < 0 \<or> hours > 23 \<or> minutes < 0 \<or> minutes > 59 then None
                 else Some (liveClockFrom (totalSeconds hours minutes savedAtMs nowMs))
             | _ \<Rightarrow> None)))"

definition totalMinutes :: "int \<Rightarrow> int \<Rightarrow> int \<Rightarrow> int \<Rightarrow> rat" where
  "totalMinutes hours minutes savedAtMs target =
     (let baseMinutes = dbl (dbl (of_int hours * 60) + of_int minutes);
          elapsedMinecraftMinutes =
            dbl (elapsedRealSeconds savedAtMs (of_int target) *
                 dbl (60 / MINECRAFT_HOUR_SECONDS))
      in dbl (baseMinutes + elapsedMinecraftMinutes))"

definition deriveMinecraftClockAtDate ::
  "(string \<Rightarrow> int option) \<Rightarrow> SpawnTimerRow option \<Rightarrow> int \<Rightarrow> MinecraftPhaseDetails option" where
  "deriveMinecraftClockAtDate dateGetTime row target =
     (if falsy (optField row ingame_time) \<or> falsy (optField row ingame_time_saved_at) then None
      else (case dateGetTime (stringOf (optField row ingame_time_saved_at)) of
        None \<Rightarrow> None
      | Some savedAtMs \<Rightarrow>
          let parts = split CHR '':'' (stringOf (optField row ingame_time));
              hoursPart = element parts 0;
              minutesPart = element parts 1
          in if falsy hoursPart \<or> falsy minutesPart then None
             else (case (parseInt (stringOf hoursPart), parseInt (stringOf minutesPart)) of
               (Some hours, Some minutes) \<Rightarrow>
                 if hours < 0 \<or> hours > 23 \<or> minutes < 0 \<or> minutes > 59 then None
                 else Some (getMinecraftPhaseFromMinutes
                              (totalMinutes hours minutes savedAtMs target))
             | _ \<Rightarrow> None)))"

text \<open>
  The references that the checks of the two derivations let through, with the values read
  from them: the row is present, its observation timestamp is a non-empty string that the
  platform parses to the instant \<open>savedAtMs\<close>, and the first two segments of its time of
  day are non-empty and read as an hour in \<open>[0,23]\<close> and a minute in \<open>[0,59]\<close>. That
  these are the rows on which the derivations return a result is proved below
  (\<open>deriveLive_valid\<close>, \<open>deriveLive_Some\<close>, \<open>deriveAtDate_valid\<close>).
\<close>

definition validReference ::
  "(string \<Rightarrow> int option) \<Rightarrow> SpawnTimerRow option \<Rightarrow> int \<Rightarrow> int \<Rightarrow> int \<Rightarrow> bool" where
  "validReference dateGetTime row savedAtMs hours minutes \<longleftrightarrow>
     (\<exists>r time savedAt hoursPart minutesPart rest.
        row = Some r \<and> ingame_time r = Some time \<and>
        ingame_time_saved_at r = Some savedAt \<and> savedAt \<noteq> [] \<and>
        dateGetTime savedAt = Some savedAtMs \<and>
        split CHR '':'' time = hoursPart # minutesPart # rest \<and>
        hoursPart \<noteq> [] \<and> minutesPart \<noteq> [] \<and>
        parseInt hoursPart = Some hours \<and> parseInt minutesPart = Some minutes \<and>
        0 \<le> hours \<and> hours \<le> 23 \<and> 0 \<le> minutes \<and> minutes \<le> 59)"

subsection \<open>Whole minutes\<close>

text \<open>
  The phase table and the label of the source on a whole minute of the day; the lemmas
  below relate the lookup to them.
\<close>

definition phaseOfMinute :: "int \<Rightarrow> phaseName" where
  "phaseOfMinute q =
     (if 273 \<le> q \<and> q < 387 then Aube
      else if 387 \<le> q \<and> q < 1057 then Jour
      else if 1057 \<le> q \<and> q < 1188 then Crepuscule
      else Nuit)"

definition minuteLabel :: "int \<Rightarrow> string" where
  "minuteLabel q = formatTwoDigits (q div 60) @ '':'' @ formatTwoDigits (q mod 60)"

definition detailsOfMinute :: "int \<Rightarrow> MinecraftPhaseDetails" where
  "detailsOfMinute q = \<lparr>phase = phaseOfMinute q, timeLabel = Some (minuteLabel q)\<rparr>"

subsection \<open>Example references\<close>

text \<open>
  A platform that reads the timestamp \<open>2024-01-01T00:00:00Z\<close> as 1704067200000
  milliseconds since the epoch and \<open>1970-01-01T00:00:00Z\<close> as 0, and a row with a given
  time of day and observation timestamp.
\<close>

definition exampleDate :: "string \<Rightarrow> int option" where
  "exampleDate s =
     (if s = ''2024-01-01T00:00:00Z'' then Some 1704067200000
      else if s = ''1970-01-01T00:00:00Z'' then Some 0
      else None)"

definition exampleRow :: "string \<Rightarrow> string \<Rightarrow> SpawnTimerRow" where
  "exampleRow time savedAt =
     \<lparr>row_id = None, row_text = None, next_spawn = None,
      ingame_time = Some time, ingame_time_saved_at = Some savedAt\<rparr>"

declare natToString.simps [simp del]

declare roundPositive.simps [simp del]

section \<open>Properties\<close>

subsection \<open>Rounding to a double\<close>

text \<open>
  The rounded value is within a relative error of \<open>2^-53\<close>, lies on the grid of its
  binade, and is the argument itself when that is an integer below \<open>2^53\<close> in magnitude
  or such an integer over a power of two. \<open>dbl_eqI\<close> and \<open>dbl_tieI\<close> compute a rounding
  from its scaled mantissa.
\<close>

lemma roundHalfEven_of_int: "roundHalfEven (of_int k) = k"
  by (simp add: roundHalfEven_def)

lemma roundHalfEven_error: "\<bar>of_int (roundHalfEven x) - x\<bar> \<le> 1 / 2"
proof -
  have "of_int \<lfloor>x\<rfloor> \<le> x" "x < of_int \<lfloor>x\<rfloor> + 1" by linarith+
  then show ?thesis by (auto simp: roundHalfEven_def Let_def)
qed

lemma roundHalfEven_eqI:
  assumes "of_int k - 1 / 2 < x" and "x < of_int k + 1 / 2"
  shows "roundHalfEven x = k"
proof (cases "of_int k \<le> x")
  case True
  then have "\<lfloor>x\<rfloor> = k" using assms by (simp add: floor_eq_iff)
  then show ?thesis using assms by (simp add: roundHalfEven_def)
next
  case False
  then have "\<lfloor>x\<rfloor> = k - 1" using assms by (simp add: floor_eq_iff)
  then show ?thesis using assms False by (simp add: roundHalfEven_def)
qed

lemma roundHalfEven_tie:
  assumes "x = of_int k + 1 / 2 \<or> x = of_int k - 1 / 2" and "even k"
  shows "roundHalfEven x = k"
  using assms(1)
proof
  assume x: "x = of_int k + 1 / 2"
  then have "\<lfloor>x\<rfloor> = k" by (simp add: floor_eq_iff)
  then show ?thesis using x assms(2) by (simp add: roundHalfEven_def)
next
  assume x: "x = of_int k - 1 / 2"
  then have "\<lfloor>x\<rfloor> = k - 1" by (simp add: floor_eq_iff)
  then show ?thesis using x assms(2) by (simp add: roundHalfEven_def)
qed

lemma roundPositive_double:
  assumes "0 < x"
  shows "roundPositive (2 * x) = 2 * roundPositive x"
proof -
  consider "2 ^ 52 \<le> x" | "x < 2 ^ 52" by linarith
  then show ?thesis
  proof cases
    case 1
    then have "2 ^ 53 \<le> 2 * x" by simp
    then show ?thesis using assms by (subst roundPositive.simps) simp
  next
    case 2
    then have "\<not> 2 ^ 53 \<le> x" by simp
    with 2 assms show ?thesis by (subst (2) roundPositive.simps) simp
  qed
qed

lemma roundPositive_binade:
  assumes "2 ^ 52 \<le> x" and "x < 2 ^ 53"
  shows "roundPositive x = of_int (roundHalfEven x)"
  using assms by (subst roundPositive.simps) simp

lemma roundPositive_times_power:
  assumes "0 < x"
  shows "roundPositive (x * 2 ^ a) = roundPositive x * 2 ^ a"
proof (induction a)
  case 0
  show ?case by simp
next
  case (Suc a)
  have "roundPositive (x * 2 ^ Suc a) = roundPositive (2 * (x * 2 ^ a))"
    by (simp add: mult.commute mult.left_commute)
  also have "\<dots> = 2 * roundPositive (x * 2 ^ a)"
    using assms by (intro roundPositive_double) simp
  finally show ?case using Suc by simp
qed

lemma roundPositive_divide_power:
  assumes "0 < x"
  shows "roundPositive (x / 2 ^ b) = roundPositive x / 2 ^ b"
proof -
  have "0 < x / 2 ^ b" using assms by simp
  from roundPositive_times_power [OF this, of b]
  show ?thesis by simp
qed

lemma roundPositive_scaled:
  assumes "0 < x" and "2 ^ 52 \<le> x * 2 ^ a / 2 ^ b" and "x * 2 ^ a / 2 ^ b < 2 ^ 53"
  shows "roundPositive x = of_int (roundHalfEven (x * 2 ^ a / 2 ^ b)) * 2 ^ b / 2 ^ a"
proof -
  have "roundPositive (x * 2 ^ a / 2 ^ b) = roundPositive x * 2 ^ a / 2 ^ b"
    using assms(1) by (simp add: roundPositive_divide_power roundPositive_times_power)
  moreover have "roundPositive (x * 2 ^ a / 2 ^ b) = of_int (roundHalfEven (x * 2 ^ a / 2 ^ b))"
    using assms(2,3) by (rule roundPositive_binade)
  ultimately show ?thesis by (simp add: field_simps)
qed

lemma scale_exists:
  "0 < (x::rat) \<Longrightarrow> \<exists>a b. 2 ^ 52 \<le> x * 2 ^ a / 2 ^ b \<and> x * 2 ^ a / 2 ^ b < 2 ^ 53"
proof (induction x rule: roundPositive.induct)
  case (1 x)
  consider "2 ^ 53 \<le> x" | "x < 2 ^ 52" | "2 ^ 52 \<le> x" "x < 2 ^ 53" by linarith
  then show ?case
  proof cases
    case 1
    with "1.IH"(1) "1.prems" obtain a b where
      "2 ^ 52 \<le> x / 2 * 2 ^ a / 2 ^ b" "x / 2 * 2 ^ a / 2 ^ b < 2 ^ 53" by auto
    then have "2 ^ 52 \<le> x * 2 ^ a / 2 ^ Suc b \<and> x * 2 ^ a / 2 ^ Suc b < 2 ^ 53" by simp
    then show ?thesis by blast
  next
    case 2
    then have "\<not> 2 ^ 53 \<le> x" by simp
    with 2 "1.IH"(2) "1.prems" obtain a b where
      "2 ^ 52 \<le> 2 * x * 2 ^ a / 2 ^ b" "2 * x * 2 ^ a / 2 ^ b < 2 ^ 53" by auto
    then have "2 ^ 52 \<le> x * 2 ^ Suc a / 2 ^ b \<and> x * 2 ^ Suc a / 2 ^ b < 2 ^ 53"
      by (simp add: mult.commute mult.left_commute)
    then show ?thesis by blast
  next
    case 3
    then have "2 ^ 52 \<le> x * 2 ^ 0 / 2 ^ 0 \<and> x * 2 ^ 0 / 2 ^ 0 < 2 ^ 53" by simp
    then show ?thesis by blast
  qed
qed

lemma roundPositive_error:
  assumes "0 < x"
  shows "\<bar>roundPositive x - x\<bar> \<le> x / 2 ^ 53"
proof -
  from scale_exists [OF assms] obtain a b where
    s: "2 ^ 52 \<le> x * 2 ^ a / 2 ^ b" "x * 2 ^ a / 2 ^ b < 2 ^ 53" by blast
  define y where "y = x * 2 ^ a / 2 ^ b"
  define c :: rat where "c = 2 ^ b / 2 ^ a"
  have c: "0 < c" by (simp add: c_def)
  have x: "x = y * c" by (simp add: y_def c_def)
  have r: "roundPositive x = of_int (roundHalfEven y) * c"
    using roundPositive_scaled [OF assms s] by (simp add: y_def c_def)
  have yb: "2 ^ 52 \<le> y" using s(1) by (simp only: y_def)
  have "\<bar>of_int (roundHalfEven y) - y\<bar> \<le> 1 / 2" by (rule roundHalfEven_error)
  also have "\<dots> \<le> y / 2 ^ 53" using yb by simp
  finally have "\<bar>of_int (roundHalfEven y) - y\<bar> * c \<le> y / 2 ^ 53 * c"
    using c by (simp add: mult_right_mono)
  moreover from r x have "roundPositive x - x = (of_int (roundHalfEven y) - y) * c"
    by (metis left_diff_distrib)
  then have "\<bar>roundPositive x - x\<bar> = \<bar>of_int (roundHalfEven y) - y\<bar> * c"
    using c by (simp add: abs_mult)
  ultimately show ?thesis by (simp add: x)
qed

lemma roundPositive_grid:
  "2 ^ K \<le> x \<Longrightarrow> K \<le> 52 \<Longrightarrow> \<exists>j. roundPositive x = of_int j / 2 ^ (52 - K)"
proof (induction x arbitrary: K rule: roundPositive.induct)
  case (1 x)
  have pos: "0 < x" using "1.prems"(1) by (rule less_le_trans [rotated]) simp
  consider "2 ^ 53 \<le> x" | "x < 2 ^ 52" | "2 ^ 52 \<le> x" "x < 2 ^ 53" by linarith
  then show ?case
  proof cases
    case 1
    have "(2::rat) ^ K \<le> 2 ^ 52" using "1.prems"(2) by (intro power_increasing) simp_all
    also have "\<dots> \<le> x / 2" using 1 by simp
    finally have "2 ^ K \<le> x / 2" .
    with "1.IH"(1) [of K] pos 1 "1.prems"(2) obtain j where "roundPositive (x / 2) = of_int j / 2 ^ (52 - K)"
      by auto
    moreover have "roundPositive x = 2 * roundPositive (x / 2)"
      using roundPositive_double [of "x / 2"] pos by simp
    ultimately have "roundPositive x = of_int (2 * j) / 2 ^ (52 - K)" by simp
    then show ?thesis by blast
  next
    case 2
    then have n53: "\<not> 2 ^ 53 \<le> x" by simp
    have lt: "(2::rat) ^ K < 2 ^ 52" using "1.prems"(1) 2 by linarith
    have K: "K < 52"
    proof (rule ccontr)
      assume "\<not> K < 52"
      then have "(2::rat) ^ 52 \<le> 2 ^ K" by (intro power_increasing) simp_all
      with lt show False by linarith
    qed
    have "2 ^ Suc K \<le> 2 * x" using "1.prems"(1) by simp
    with "1.IH"(2) [of "Suc K"] pos 2 n53 K obtain j where
      j: "roundPositive (2 * x) = of_int j / 2 ^ (52 - Suc K)" by auto
    have "(2::rat) ^ (52 - K) = 2 * 2 ^ (52 - Suc K)"
      using K by (metis Suc_diff_Suc power_Suc)
    moreover have "roundPositive x = roundPositive (2 * x) / 2"
      using roundPositive_double [OF pos] by simp
    ultimately have "roundPositive x = of_int j / 2 ^ (52 - K)" using j by simp
    then show ?thesis by blast
  next
    case 3
    then have "roundPositive x = of_int (roundHalfEven x)" by (rule roundPositive_binade)
    then have "roundPositive x = of_int (roundHalfEven x * 2 ^ (52 - K)) / 2 ^ (52 - K)" by simp
    then show ?thesis by blast
  qed
qed

lemma scale_up_exists:
  "0 < (x::rat) \<Longrightarrow> x < 2 ^ 52 \<Longrightarrow> \<exists>a. 2 ^ 52 \<le> x * 2 ^ a \<and> x * 2 ^ a < 2 ^ 53"
proof (induction x rule: roundPositive.induct)
  case (1 x)
  then have n: "\<not> x \<le> 0" "\<not> 2 ^ 53 \<le> x" by simp_all
  show ?case
  proof (cases "2 * x < 2 ^ 52")
    case True
    with "1.IH"(2) n "1.prems" obtain a where "2 ^ 52 \<le> 2 * x * 2 ^ a" "2 * x * 2 ^ a < 2 ^ 53"
      by auto
    then have "2 ^ 52 \<le> x * 2 ^ Suc a \<and> x * 2 ^ Suc a < 2 ^ 53"
      by (simp add: mult.commute mult.left_commute)
    then show ?thesis by blast
  next
    case False
    then have "2 ^ 52 \<le> x * 2 ^ 1 \<and> x * 2 ^ 1 < 2 ^ 53" using "1.prems" by simp
    then show ?thesis by blast
  qed
qed

lemma roundPositive_of_int:
  assumes "0 < k" and "k < 2 ^ 53"
  shows "roundPositive (of_int k) = of_int k"
proof (cases "(of_int k :: rat) < 2 ^ 52")
  case True
  have pos: "0 < (of_int k :: rat)" using assms(1) by simp
  from scale_up_exists [OF pos True] obtain a where
    a: "2 ^ 52 \<le> (of_int k :: rat) * 2 ^ a" "(of_int k :: rat) * 2 ^ a < 2 ^ 53" by blast
  define m where "m = k * 2 ^ a"
  have eq: "(of_int k :: rat) * 2 ^ a = of_int m" by (simp add: m_def)
  have "roundPositive (of_int m) = of_int (roundHalfEven (of_int m))"
    using a unfolding eq by (rule roundPositive_binade)
  then have "roundPositive (of_int m) = of_int m" by (simp only: roundHalfEven_of_int)
  moreover have "roundPositive (of_int m) = roundPositive (of_int k) * 2 ^ a"
    using roundPositive_times_power [OF pos, of a] by (simp only: eq)
  ultimately have "roundPositive (of_int k) * 2 ^ a = of_int k * 2 ^ a" by (simp only: eq)
  then show ?thesis by simp
next
  case False
  moreover have "(of_int k :: rat) < 2 ^ 53" using assms(2) by (simp add: of_int_less_numeral_power_cancel_iff)
  ultimately have "roundPositive (of_int k) = of_int (roundHalfEven (of_int k))"
    by (intro roundPositive_binade) simp_all
  then show ?thesis by (simp add: roundHalfEven_of_int)
qed

lemma dbl_0 [simp]: "dbl 0 = 0"
  by (simp add: dbl_def roundPositive.simps [of 0])

lemma dbl_error: "\<bar>dbl x - x\<bar> \<le> \<bar>x\<bar> / 2 ^ 53"
proof -
  consider "x < 0" | "x = 0" | "0 < x" by linarith
  then show ?thesis
  proof cases
    case 1
    then show ?thesis using roundPositive_error [of "- x"] by (simp add: dbl_def)
  next
    case 2
    then show ?thesis by simp
  next
    case 3
    then show ?thesis using roundPositive_error [of x] by (simp add: dbl_def)
  qed
qed

lemma dbl_nonneg:
  assumes "0 \<le> x"
  shows "0 \<le> dbl x"
proof -
  have "\<bar>dbl x - x\<bar> \<le> x / 2 ^ 53" using dbl_error [of x] assms by simp
  moreover have "x / 2 ^ 53 \<le> x" using assms by (simp add: field_simps)
  ultimately show ?thesis by linarith
qed

lemma dbl_nonpos:
  assumes "x \<le> 0"
  shows "dbl x \<le> 0"
proof -
  have "\<bar>dbl x - x\<bar> \<le> - x / 2 ^ 53" using dbl_error [of x] assms by simp
  moreover have "- x / 2 ^ 53 \<le> - x" using assms by (simp add: field_simps)
  ultimately show ?thesis by linarith
qed

lemma dbl_of_int:
  assumes "\<bar>k\<bar> < 2 ^ 53"
  shows "dbl (of_int k) = of_int k"
proof -
  consider "k < 0" | "k = 0" | "0 < k" by linarith
  then show ?thesis
  proof cases
    case 1
    then show ?thesis using assms roundPositive_of_int [of "- k"] by (simp add: dbl_def)
  next
    case 2
    then show ?thesis by simp
  next
    case 3
    then show ?thesis using assms roundPositive_of_int [of k] by (simp add: dbl_def)
  qed
qed

lemma dbl_dyadic:
  assumes "\<bar>k\<bar> < 2 ^ 53"
  shows "dbl (of_int k / 2 ^ b) = of_int k / 2 ^ b"
proof -
  consider "k < 0" | "k = 0" | "0 < k" by linarith
  then show ?thesis
  proof cases
    case 1
    then have "roundPositive (of_int (- k) / 2 ^ b) = of_int (- k) / 2 ^ b"
      using assms roundPositive_of_int [of "- k"]
      by (subst roundPositive_divide_power) simp_all
    then show ?thesis using 1 by (simp add: dbl_def divide_neg_pos)
  next
    case 2
    then show ?thesis by simp
  next
    case 3
    then have "roundPositive (of_int k / 2 ^ b) = of_int k / 2 ^ b"
      using assms roundPositive_of_int [of k]
      by (subst roundPositive_divide_power) simp_all
    moreover have "0 < (of_int k :: rat) / 2 ^ b" using 3 by simp
    ultimately show ?thesis by (simp add: dbl_def not_less [symmetric] del: divide_less_0_iff zero_less_divide_iff)
  qed
qed

lemma dbl_grid:
  assumes "2 ^ K \<le> x" and "K \<le> 52"
  shows "\<exists>j. dbl x = of_int j / 2 ^ (52 - K)"
proof -
  have "0 < x" using assms(1) by (rule less_le_trans [rotated]) simp
  then show ?thesis using roundPositive_grid [OF assms] by (simp add: dbl_def)
qed

lemma dbl_eqI:
  assumes "0 < x" and "y * 2 ^ a / 2 ^ b = of_int k"
    and "2 ^ 52 \<le> x * 2 ^ a / 2 ^ b" and "x * 2 ^ a / 2 ^ b < 2 ^ 53"
    and "of_int k - 1 / 2 < x * 2 ^ a / 2 ^ b" and "x * 2 ^ a / 2 ^ b < of_int k + 1 / 2"
  shows "dbl x = y"
proof -
  have "roundHalfEven (x * 2 ^ a / 2 ^ b) = k" using assms(5,6) by (rule roundHalfEven_eqI)
  then have "roundPositive x = of_int k * 2 ^ b / 2 ^ a"
    using roundPositive_scaled [OF assms(1,3,4)] by simp
  also have "\<dots> = y" using assms(2) [symmetric] by simp
  finally show ?thesis using assms(1) by (simp add: dbl_def)
qed

lemma dbl_tieI:
  assumes "0 < x" and "y * 2 ^ a / 2 ^ b = of_int k"
    and "2 ^ 52 \<le> x * 2 ^ a / 2 ^ b" and "x * 2 ^ a / 2 ^ b < 2 ^ 53"
    and "x * 2 ^ a / 2 ^ b = of_int k + 1 / 2 \<or> x * 2 ^ a / 2 ^ b = of_int k - 1 / 2" and "even k"
  shows "dbl x = y"
proof -
  have "roundHalfEven (x * 2 ^ a / 2 ^ b) = k" using assms(5,6) by (rule roundHalfEven_tie)
  then have "roundPositive x = of_int k * 2 ^ b / 2 ^ a"
    using roundPositive_scaled [OF assms(1,3,4)] by simp
  also have "\<dots> = y" using assms(2) [symmetric] by simp
  finally show ?thesis using assms(1) by (simp add: dbl_def)
qed

subsection \<open>The remainder operator\<close>

text \<open>
  For a positive divisor, \<open>((x % y) + y) % y\<close> is the mathematical modulo of \<open>x\<close>, for
  negative \<open>x\<close> too.
\<close>

lemma floor_frac_bounds:
  fixes x y :: rat
  assumes "0 < y"
  shows "0 \<le> x - y * of_int \<lfloor>x / y\<rfloor>" and "x - y * of_int \<lfloor>x / y\<rfloor> < y"
proof -
  have "of_int \<lfloor>x / y\<rfloor> \<le> x / y" by (rule of_int_floor_le)
  then have "of_int \<lfloor>x / y\<rfloor> * y \<le> x"
    using pos_le_divide_eq [OF assms, of "of_int \<lfloor>x / y\<rfloor>" x] by blast
  then show "0 \<le> x - y * of_int \<lfloor>x / y\<rfloor>" by (simp add: mult.commute)
  have "x / y < of_int \<lfloor>x / y\<rfloor> + 1" using floor_correct [of "x / y"] by simp
  then have "x < (of_int \<lfloor>x / y\<rfloor> + 1) * y"
    using pos_divide_less_eq [OF assms, of x "of_int \<lfloor>x / y\<rfloor> + 1"] by blast
  then show "x - y * of_int \<lfloor>x / y\<rfloor> < y" by (simp add: algebra_simps)
qed

lemma jsRem_nonneg:
  assumes "0 \<le> x" and "0 < y"
  shows "jsRem x y = x - y * of_int \<lfloor>x / y\<rfloor>"
  using assms by (simp add: jsRem_def jsTrunc_def)

lemma jsRem_small:
  assumes "0 \<le> x" and "x < y"
  shows "jsRem x y = x"
proof -
  have "\<lfloor>x / y\<rfloor> = 0" using assms by (simp add: floor_eq_iff)
  then show ?thesis using assms by (simp add: jsRem_nonneg)
qed

lemma jsRem_wrap_once:
  assumes "y \<le> x" and "x < 2 * y" and "0 < y"
  shows "jsRem x y = x - y"
proof -
  have "\<lfloor>x / y\<rfloor> = 1" using assms by (simp add: floor_eq_iff pos_le_divide_eq pos_divide_less_eq)
  then show ?thesis using assms by (simp add: jsRem_nonneg)
qed

lemma jsRem_true_modulo:
  assumes "0 < y"
  shows "jsRem (jsRem x y + y) y = x - y * of_int \<lfloor>x / y\<rfloor>"
proof (cases "0 \<le> x")
  case True
  let ?r = "x - y * of_int \<lfloor>x / y\<rfloor>"
  have r: "jsRem x y = ?r" using True assms by (rule jsRem_nonneg)
  have "0 \<le> ?r" "?r < y" using floor_frac_bounds [OF assms, of x] by simp_all
  then have "jsRem (?r + y) y = ?r + y - y"
    using assms by (intro jsRem_wrap_once) simp_all
  then show ?thesis by (simp add: r)
next
  case False
  then have neg: "x / y < 0" using assms by (simp add: divide_neg_pos)
  let ?r = "x - y * of_int \<lfloor>x / y\<rfloor>"
  have bounds: "0 \<le> ?r" "?r < y" using floor_frac_bounds [OF assms, of x] by simp_all
  have r: "jsRem x y = x - y * of_int \<lceil>x / y\<rceil>"
    using neg by (simp add: jsRem_def jsTrunc_def)
  show ?thesis
  proof (cases "x / y \<in> \<int>")
    case True
    then obtain n where n: "x / y = of_int n" by (auto elim: Ints_cases)
    then have x: "x = y * of_int n" using assms by (simp add: field_simps)
    have fl: "\<lfloor>x / y\<rfloor> = n" and ce: "\<lceil>x / y\<rceil> = n" by (simp_all add: n)
    have "jsRem x y = 0" unfolding r ce using x by simp
    moreover have "?r = 0" unfolding fl using x by simp
    moreover have "jsRem y y = 0" using assms by (simp add: jsRem_def jsTrunc_def)
    ultimately show ?thesis by simp
  next
    case False
    then have "\<lceil>x / y\<rceil> = \<lfloor>x / y\<rfloor> + 1"
      by (metis Ints_of_int ceiling_altdef)
    then have "jsRem x y + y = ?r" by (simp add: r algebra_simps)
    then show ?thesis using bounds by (simp add: jsRem_small)
  qed
qed

subsection \<open>The floor of a rounded quotient\<close>

text \<open>
  The quotient of a double by a positive whole number is rounded, but its floor is the
  floor of the exact quotient: the exact quotient is either whole or further from the
  next whole number than the rounding moves it.
\<close>

lemma floor_divide_of_int:
  fixes x :: rat
  assumes "0 < d"
  shows "\<lfloor>x / of_int d\<rfloor> = \<lfloor>x\<rfloor> div d"
proof (rule floor_unique)
  define Q where "Q = \<lfloor>x\<rfloor> div d"
  define R where "R = \<lfloor>x\<rfloor> mod d"
  have d: "0 < (of_int d :: rat)" using assms by simp
  have fl: "\<lfloor>x\<rfloor> = Q * d + R" by (simp add: Q_def R_def)
  have Rd: "R < d" unfolding R_def using assms by (rule pos_mod_bound)
  have R0: "0 \<le> R" unfolding R_def using assms by simp
  have R: "0 \<le> R" "R + 1 \<le> d" using Rd R0 by simp_all
  have "(of_int \<lfloor>x\<rfloor> :: rat) = of_int Q * of_int d + of_int R" by (simp add: fl)
  moreover have "(0::rat) \<le> of_int R" using R(1) by simp
  moreover have "(of_int (R + 1) :: rat) \<le> of_int d" using R(2) by (simp only: of_int_le_iff)
  then have "(of_int R :: rat) + 1 \<le> of_int d" by simp
  moreover have "of_int \<lfloor>x\<rfloor> \<le> x" "x < of_int \<lfloor>x\<rfloor> + 1" by linarith+
  ultimately have "of_int Q * of_int d \<le> x" "x < (of_int Q + 1) * of_int d"
    by (simp_all add: algebra_simps)
  then show "of_int (\<lfloor>x\<rfloor> div d) \<le> x / of_int d" "x / of_int d < of_int (\<lfloor>x\<rfloor> div d) + 1"
    using d by (simp_all add: pos_le_divide_eq pos_divide_less_eq Q_def)
qed

lemma grid_positive:
  fixes j :: int
  assumes "0 < of_int j / (2 ^ G :: rat)"
  shows "1 / 2 ^ G \<le> of_int j / (2 ^ G :: rat)"
proof -
  have "0 < j" using assms by (simp add: zero_less_divide_iff)
  then have "(1::rat) \<le> of_int j" by simp
  then show ?thesis by (simp add: divide_right_mono)
qed

lemma floor_dbl_grid:
  fixes y :: rat and d :: int
  assumes grid: "y = of_int j / 2 ^ G" and "0 \<le> y" and small: "y * 2 ^ G < 2 ^ 53" and d: "0 < d"
  shows "\<lfloor>dbl (y / of_int d)\<rfloor> = \<lfloor>y / of_int d\<rfloor>"
proof -
  define q where "q = \<lfloor>y / of_int d\<rfloor>"
  define r where "r = y - of_int d * of_int q"
  define e :: rat where "e = 1 / 2 ^ G / of_int d"
  define x where "x = y / of_int d"
  have dpos: "0 < (of_int d :: rat)" using d by simp
  have r: "0 \<le> r" "r < of_int d"
    unfolding r_def q_def using floor_frac_bounds [OF dpos, of y] by simp_all
  have xq: "x = of_int q + r / of_int d"
    using dpos by (simp add: x_def r_def field_simps)
  have q0: "0 \<le> q" unfolding q_def using assms(2) dpos by simp
  have rgrid: "r = of_int (j - d * q * 2 ^ G) / 2 ^ G"
    by (simp add: r_def grid field_simps)
  have drgrid: "of_int d - r = of_int (d * 2 ^ G - (j - d * q * 2 ^ G)) / 2 ^ G"
    by (simp add: rgrid field_simps)
  show ?thesis
  proof (cases "r = 0")
    case True
    then have x: "x = of_int q" by (simp add: xq)
    have "of_int q \<le> y" 
    proof -
      have "of_int q \<le> x" by (simp add: x)
      also have "x \<le> y"
      proof -
        have "(1::rat) \<le> of_int d" using d by simp
        then have "y / of_int d \<le> y / 1" using assms(2) by (intro divide_left_mono) simp_all
        then show ?thesis by (simp add: x_def)
      qed
      finally show ?thesis .
    qed
    also have "y \<le> y * 2 ^ G" using assms(2) by (simp add: mult_le_cancel_left1)
    also have "\<dots> < 2 ^ 53" by (rule small)
    finally have "(of_int q :: rat) < 2 ^ 53" .
    then have "q < 2 ^ 53" by (simp add: of_int_less_numeral_power_cancel_iff)
    then have "dbl (of_int q) = of_int q" using q0 by (intro dbl_of_int) simp
    then have "\<lfloor>dbl x\<rfloor> = q" by (simp add: x)
    then show ?thesis by (simp add: q_def x_def)
  next
    case False
    then have "0 < r" using r by simp
    then have r1: "1 / 2 ^ G \<le> r" unfolding rgrid by (rule grid_positive)
    have "0 < of_int d - r" using r by simp
    then have r2: "1 / 2 ^ G \<le> of_int d - r" unfolding drgrid by (rule grid_positive)
    have e1: "e \<le> r / of_int d"
      unfolding e_def by (rule divide_right_mono [OF r1]) (use dpos in simp)
    have e2: "e \<le> (of_int d - r) / of_int d"
      unfolding e_def by (rule divide_right_mono [OF r2]) (use dpos in simp)
    have e2': "x + e \<le> of_int q + 1"
      using e2 dpos by (simp add: xq diff_divide_distrib)
    have x0: "0 \<le> x" unfolding x_def using assms(2) dpos by simp
    have "x / 2 ^ 53 < e"
    proof -
      have "y / 2 ^ 53 < 1 / 2 ^ G" using small by (simp add: field_simps)
      then have "y / 2 ^ 53 / of_int d < 1 / 2 ^ G / of_int d"
        by (rule divide_strict_right_mono) (rule dpos)
      then show ?thesis by (simp add: x_def e_def)
    qed
    moreover have "\<bar>dbl x - x\<bar> \<le> x / 2 ^ 53" using dbl_error [of x] x0 by simp
    ultimately have "\<bar>dbl x - x\<bar> < e" by linarith
    then have "of_int q < dbl x" "dbl x < of_int q + 1"
      using e1 e2' xq by linarith+
    then have "\<lfloor>dbl x\<rfloor> = q" by (simp add: floor_eq_iff)
    then show ?thesis by (simp add: q_def x_def)
  qed
qed

subsection \<open>Normalization\<close>

lemma jsRem_of_int:
  assumes "0 < d"
  shows "\<exists>r. jsRem (of_int m) (of_int d) = of_int r \<and> - d < r \<and> r < d"
proof (cases "0 \<le> m")
  case True
  then have "jsRem (of_int m) (of_int d) = of_int m - of_int d * of_int \<lfloor>(of_int m :: rat) / of_int d\<rfloor>"
    using assms by (intro jsRem_nonneg) simp_all
  also have "\<dots> = of_int (m - d * (m div d))" by (simp add: floor_divide_of_int_eq)
  also have "m - d * (m div d) = m mod d" by (simp add: minus_mult_div_eq_mod)
  finally have "jsRem (of_int m) (of_int d) = of_int (m mod d)" .
  moreover have "0 \<le> m mod d" "m mod d < d" using assms by simp_all
  then have "- d < m mod d" "m mod d < d" using assms by linarith+
  ultimately show ?thesis by blast
next
  case False
  then have neg: "(of_int m :: rat) / of_int d < 0" using assms by (simp add: divide_neg_pos)
  have "\<lceil>(of_int m :: rat) / of_int d\<rceil> = - \<lfloor>(of_int (- m) :: rat) / of_int d\<rfloor>"
    by (simp add: ceiling_def)
  also have "\<dots> = - ((- m) div d)" by (simp only: floor_divide_of_int_eq)
  finally have "jsRem (of_int m) (of_int d) = of_int (m + d * ((- m) div d))"
    using neg by (simp add: jsRem_def jsTrunc_def)
  moreover have "m + d * ((- m) div d) = - ((- m) mod d)"
    by (simp add: minus_mult_div_eq_mod [symmetric])
  moreover have "0 \<le> (- m) mod d" "(- m) mod d < d" using assms by simp_all
  then have "- d < - ((- m) mod d)" "- ((- m) mod d) < d" using assms by linarith+
  ultimately show ?thesis by (metis (no_types))
qed

lemma true_modulo_of_int:
  assumes "0 < d"
  shows "(of_int m :: rat) - of_int d * of_int \<lfloor>(of_int m :: rat) / of_int d\<rfloor> = of_int (m mod d)"
proof -
  have "(of_int m :: rat) - of_int d * of_int \<lfloor>(of_int m :: rat) / of_int d\<rfloor> = of_int (m - d * (m div d))"
    by (simp add: floor_divide_of_int_eq)
  also have "m - d * (m div d) = m mod d" by (simp add: minus_mult_div_eq_mod)
  finally show ?thesis .
qed

lemma normalized_of_int:
  assumes "0 < d" and "d < 2 ^ 50"
  shows "jsRem (dbl (jsRem (of_int m) (of_int d) + of_int d)) (of_int d) = of_int (m mod d)"
proof -
  from jsRem_of_int [OF assms(1), of m] obtain r where
    r: "jsRem (of_int m) (of_int d) = of_int r" "- d < r" "r < d" by blast
  have "\<bar>r + d\<bar> < 2 ^ 53" using r(2,3) assms by simp
  then have "dbl (of_int (r + d)) = of_int (r + d)" by (rule dbl_of_int)
  then have "dbl (jsRem (of_int m) (of_int d) + of_int d) = jsRem (of_int m) (of_int d) + of_int d"
    by (simp add: r(1))
  moreover have "0 < (of_int d :: rat)" using assms(1) by simp
  ultimately show ?thesis
    by (simp only: jsRem_true_modulo true_modulo_of_int [OF assms(1)])
qed

lemma normalizedMinutes_of_int: "normalizedMinutes (of_int m) = of_int (m mod 1440)"
  using normalized_of_int [of 1440 m]
  by (simp add: normalizedMinutes_def MINECRAFT_MINUTES_PER_DAY_def)

lemma normalizeMinecraftSeconds_of_int: "normalizeMinecraftSeconds (of_int i) = of_int (i mod 86400)"
  using normalized_of_int [of 86400 i]
  by (simp add: normalizeMinecraftSeconds_def MINECRAFT_SECONDS_PER_DAY_def
      MINECRAFT_MINUTES_PER_DAY_def)

lemma jsRem_lower:
  assumes "0 < y"
  shows "- y < jsRem x y"
proof (cases "0 \<le> x")
  case True
  then have "jsRem x y = x - y * of_int \<lfloor>x / y\<rfloor>" using assms by (rule jsRem_nonneg)
  then show ?thesis using floor_frac_bounds(1) [OF assms, of x] assms by simp
next
  case False
  then have neg: "x / y < 0" using assms by (simp add: divide_neg_pos)
  have "of_int \<lceil>x / y\<rceil> < x / y + 1" by linarith
  then have "y * of_int \<lceil>x / y\<rceil> < y * (x / y + 1)"
    using assms by (rule mult_strict_left_mono)
  also have "\<dots> = x + y" using assms by (simp add: field_simps)
  finally show ?thesis using neg by (simp add: jsRem_def jsTrunc_def)
qed

lemma jsRem_range:
  assumes "0 \<le> x" and "0 < y"
  shows "0 \<le> jsRem x y" and "jsRem x y < y"
  using floor_frac_bounds [OF assms(2), of x] by (simp_all add: jsRem_nonneg [OF assms])

lemma normalized_range:
  assumes "0 < y"
  shows "0 \<le> jsRem (dbl (jsRem x y + y)) y" and "jsRem (dbl (jsRem x y + y)) y < y"
proof -
  have "0 \<le> jsRem x y + y" using jsRem_lower [OF assms, of x] by simp
  then have "0 \<le> dbl (jsRem x y + y)" by (rule dbl_nonneg)
  then show "0 \<le> jsRem (dbl (jsRem x y + y)) y" "jsRem (dbl (jsRem x y + y)) y < y"
    using assms by (simp_all add: jsRem_range)
qed

lemma normalizedMinutes_range:
  "0 \<le> normalizedMinutes x" "normalizedMinutes x < 1440"
  using normalized_range [of 1440 x]
  by (simp_all add: normalizedMinutes_def MINECRAFT_MINUTES_PER_DAY_def)

lemma normalizeMinecraftSeconds_range:
  "0 \<le> normalizeMinecraftSeconds x" "normalizeMinecraftSeconds x < 86400"
  using normalized_range [of 86400 x]
  by (simp_all add: normalizeMinecraftSeconds_def MINECRAFT_SECONDS_PER_DAY_def
      MINECRAFT_MINUTES_PER_DAY_def)

text \<open>Of a total that is not negative, the normalized value lies on the grid of its sum.\<close>

lemma jsRem_grid:
  assumes "x = of_int j / 2 ^ G" and "0 \<le> x" and "0 < d"
  shows "\<exists>i. jsRem x (of_int d) = of_int i / 2 ^ G"
proof -
  have "jsRem x (of_int d) = x - of_int d * of_int \<lfloor>x / of_int d\<rfloor>"
    using assms(2,3) by (intro jsRem_nonneg) simp_all
  also have "\<dots> = of_int (j - d * \<lfloor>x / of_int d\<rfloor> * 2 ^ G) / 2 ^ G"
    by (simp add: assms(1) field_simps)
  finally show ?thesis by blast
qed

lemma normalizedMinutes_grid:
  assumes "0 \<le> x"
  shows "\<exists>i. normalizedMinutes x = of_int i / 2 ^ 42"
proof -
  have "0 \<le> jsRem x 1440" using assms by (simp add: jsRem_range)
  then have "2 ^ 10 \<le> jsRem x 1440 + 1440" by simp
  from dbl_grid [OF this] obtain j where j: "dbl (jsRem x 1440 + 1440) = of_int j / 2 ^ 42"
    by auto
  have "0 \<le> dbl (jsRem x 1440 + 1440)" using \<open>0 \<le> jsRem x 1440\<close> by (intro dbl_nonneg) simp
  from jsRem_grid [OF j this, of 1440] show ?thesis
    by (simp add: normalizedMinutes_def MINECRAFT_MINUTES_PER_DAY_def)
qed

lemma normalizeMinecraftSeconds_grid:
  assumes "0 \<le> x"
  shows "\<exists>i. normalizeMinecraftSeconds x = of_int i / 2 ^ 36"
proof -
  have "0 \<le> jsRem x 86400" using assms by (simp add: jsRem_range)
  then have "2 ^ 16 \<le> jsRem x 86400 + 86400" by simp
  from dbl_grid [OF this] obtain j where j: "dbl (jsRem x 86400 + 86400) = of_int j / 2 ^ 36"
    by auto
  have "0 \<le> dbl (jsRem x 86400 + 86400)" using \<open>0 \<le> jsRem x 86400\<close> by (intro dbl_nonneg) simp
  from jsRem_grid [OF j this, of 86400] show ?thesis
    by (simp add: normalizeMinecraftSeconds_def MINECRAFT_SECONDS_PER_DAY_def
        MINECRAFT_MINUTES_PER_DAY_def)
qed

subsection \<open>The phase lookup on one minute\<close>

lemma getPhase_from_normalized:
  assumes lo: "of_int q \<le> normalizedMinutes x" and hi: "normalizedMinutes x < of_int q + 1"
    and grid: "\<exists>j. normalizedMinutes x = of_int j / 2 ^ 42"
  shows "getMinecraftPhaseFromMinutes x = detailsOfMinute q"
proof -
  define nm where "nm = normalizedMinutes x"
  have fl: "\<lfloor>nm\<rfloor> = q" using lo hi by (simp add: nm_def floor_eq_iff)
  have r: "0 \<le> nm" "nm < 1440" unfolding nm_def by (rule normalizedMinutes_range)+
  from grid obtain j where j: "nm = of_int j / 2 ^ 42" by (auto simp: nm_def)
  have "nm * 2 ^ 42 < 1440 * 2 ^ 42" using r(2) by simp
  then have small: "nm * 2 ^ 42 < 2 ^ 53" by simp
  have "\<lfloor>dbl (nm / of_int 60)\<rfloor> = \<lfloor>nm / of_int 60\<rfloor>"
    using j r(1) small by (rule floor_dbl_grid) simp
  also have "\<dots> = q div 60" using floor_divide_of_int [of 60 nm] by (simp add: fl)
  finally have h: "\<lfloor>dbl (nm / 60)\<rfloor> = q div 60" by simp
  have f60: "\<lfloor>nm / 60\<rfloor> = q div 60" using floor_divide_of_int [of 60 nm] by (simp add: fl)
  have "jsRem nm 60 = nm - of_int (60 * \<lfloor>nm / 60\<rfloor>)" using r(1) by (simp add: jsRem_nonneg)
  then have "\<lfloor>jsRem nm 60\<rfloor> = \<lfloor>nm\<rfloor> - 60 * \<lfloor>nm / 60\<rfloor>" by (simp only: floor_diff_of_int)
  also have "\<dots> = q mod 60" by (simp add: fl f60 minus_mult_div_eq_mod)
  finally have m: "\<lfloor>jsRem nm 60\<rfloor> = q mod 60" .
  have c: "\<And>k. (numeral k \<le> nm) = (numeral k \<le> q)" "\<And>k. (nm < numeral k) = (q < numeral k)"
    unfolding fl [symmetric] by simp_all
  show ?thesis
    unfolding getMinecraftPhaseFromMinutes_def nm_def [symmetric] Let_def
    by (simp add: h m c detailsOfMinute_def phaseOfMinute_def minuteLabel_def)
qed

lemma getPhase_of_int:
  "getMinecraftPhaseFromMinutes (of_int m) = detailsOfMinute (m mod 1440)"
proof (rule getPhase_from_normalized)
  show "of_int (m mod 1440) \<le> normalizedMinutes (of_int m)"
    "normalizedMinutes (of_int m) < of_int (m mod 1440) + 1"
    by (simp_all add: normalizedMinutes_of_int)
  have "normalizedMinutes (of_int m) = of_int (m mod 1440 * 2 ^ 42) / 2 ^ 42"
    by (simp add: normalizedMinutes_of_int)
  then show "\<exists>j. normalizedMinutes (of_int m) = of_int j / 2 ^ 42" by blast
qed

lemma getPhase_cell:
  assumes "0 \<le> x" and mu: "2880 / 2 ^ 53 < \<mu>"
    and lo: "of_int Q + \<mu> \<le> x" and hi: "x \<le> of_int Q + 1 - \<mu>"
  shows "getMinecraftPhaseFromMinutes x = detailsOfMinute (Q mod 1440)"
proof (rule getPhase_from_normalized)
  define a where "a = \<lfloor>x / 1440\<rfloor>"
  define r where "r = jsRem x 1440"
  define q where "q = Q - 1440 * a"
  define v where "v = dbl (r + 1440)"
  have r_eq: "r = x - 1440 * of_int a" unfolding r_def a_def using assms(1) by (simp add: jsRem_nonneg)
  have r: "0 \<le> r" "r < 1440" unfolding r_def using assms(1) by (simp_all add: jsRem_range)
  have mupos: "0 < \<mu>" using mu by (rule less_trans [rotated]) simp
  have cell: "of_int q + \<mu> \<le> r" "r \<le> of_int q + 1 - \<mu>"
    using lo hi by (simp_all add: r_eq q_def)
  have "of_int q < (1440::rat)" "(-1::rat) < of_int q" using cell r mupos by linarith+
  then have q: "0 \<le> q" "q < 1440" by simp_all
  have "Q = q + 1440 * a" by (simp add: q_def)
  then have "Q mod 1440 = q mod 1440" by (simp add: mod_add_eq)
  with q have Qq: "Q mod 1440 = q" by simp
  have "\<bar>v - (r + 1440)\<bar> \<le> \<bar>r + 1440\<bar> / 2 ^ 53" unfolding v_def by (rule dbl_error)
  also have "\<dots> \<le> 2880 / 2 ^ 53" using r by (simp add: divide_right_mono)
  finally have err: "\<bar>v - (r + 1440)\<bar> < \<mu>" using mu by linarith
  have vb: "of_int q + 1440 < v" "v < of_int q + 1441" using err cell by linarith+
  have qr: "(0::rat) \<le> of_int q" "(of_int q :: rat) \<le> 1439" using q by simp_all
  have "1440 \<le> v" "v < 2 * 1440" using vb qr by linarith+
  then have "jsRem v 1440 = v - 1440" by (intro jsRem_wrap_once) simp_all
  then have nm: "normalizedMinutes x = v - 1440"
    by (simp add: normalizedMinutes_def MINECRAFT_MINUTES_PER_DAY_def v_def r_def)
  show "of_int (Q mod 1440) \<le> normalizedMinutes x"
    "normalizedMinutes x < of_int (Q mod 1440) + 1"
    using vb by (simp_all add: nm Qq)
  show "\<exists>j. normalizedMinutes x = of_int j / 2 ^ 42"
    using assms(1) by (rule normalizedMinutes_grid)
qed

subsection \<open>The phase table\<close>

lemma phase_of_int:
  "phase (getMinecraftPhaseFromMinutes (of_int m)) = phaseOfMinute (m mod 1440)"
  by (simp add: getPhase_of_int detailsOfMinute_def)

text \<open>
  Claim C1. For every integer \<open>m\<close> in \<open>[0,1440)\<close> the phase lookup returns one of the
  four phases, and it returns dawn exactly on \<open>[273,387)\<close>, day exactly on \<open>[387,1057)\<close>,
  dusk exactly on \<open>[1057,1188)\<close> and night exactly on \<open>[1188,1440)\<close> and \<open>[0,273)\<close>:
  the four intervals partition \<open>[0,1440)\<close>, with no gap and no overlap.
\<close>

theorem phase_partition:
  fixes m :: int
  assumes "0 \<le> m" and "m < 1440"
  shows "(phase (getMinecraftPhaseFromMinutes (of_int m)) = Aube \<longleftrightarrow> 273 \<le> m \<and> m < 387) \<and>
         (phase (getMinecraftPhaseFromMinutes (of_int m)) = Jour \<longleftrightarrow> 387 \<le> m \<and> m < 1057) \<and>
         (phase (getMinecraftPhaseFromMinutes (of_int m)) = Crepuscule \<longleftrightarrow> 1057 \<le> m \<and> m < 1188) \<and>
         (phase (getMinecraftPhaseFromMinutes (of_int m)) = Nuit \<longleftrightarrow> 1188 \<le> m \<or> m < 273)"
proof -
  have "m mod 1440 = m" using assms by simp
  then have "phase (getMinecraftPhaseFromMinutes (of_int m)) = phaseOfMinute m"
    by (simp add: phase_of_int)
  then show ?thesis by (simp add: phaseOfMinute_def) linarith
qed

theorem phase_partition_witness:
  "phase (getMinecraftPhaseFromMinutes 300) = Aube \<and>
   phase (getMinecraftPhaseFromMinutes 386) \<noteq> Jour \<and>
   phase (getMinecraftPhaseFromMinutes 387) = Jour \<and>
   phase (getMinecraftPhaseFromMinutes 0) = Nuit"
  using phase_partition [of 300] phase_partition [of 386] phase_partition [of 387]
    phase_partition [of 0]
  by simp



subsection \<open>The live clock\<close>

lemma dbl_numeral:
  "(numeral n :: int) < 2 ^ 53 \<Longrightarrow> dbl (numeral n) = numeral n"
  using dbl_of_int [of "numeral n"] by simp

lemma MINECRAFT_SECONDS_PER_REAL_SECOND_72: "MINECRAFT_SECONDS_PER_REAL_SECOND = 72"
  by (simp add: MINECRAFT_SECONDS_PER_REAL_SECOND_def MINECRAFT_HOUR_SECONDS_def dbl_numeral)

lemma baseMinutes_exact:
  assumes "0 \<le> hours" and "hours \<le> 23" and "0 \<le> minutes" and "minutes \<le> 59"
  shows "dbl (dbl (of_int hours * 60) + of_int minutes) = of_int (hours * 60 + minutes)"
proof -
  have "dbl (of_int (hours * 60)) = of_int (hours * 60)" using assms by (intro dbl_of_int) simp
  moreover have "dbl (of_int (hours * 60 + minutes)) = of_int (hours * 60 + minutes)"
    using assms by (intro dbl_of_int) simp
  ultimately show ?thesis by simp
qed

lemma baseSeconds_exact:
  assumes "0 \<le> hours" and "hours \<le> 23" and "0 \<le> minutes" and "minutes \<le> 59"
  shows "dbl (dbl (dbl (of_int hours * 60) + of_int minutes) * 60) =
           of_int ((hours * 60 + minutes) * 60)"
proof -
  have "dbl (of_int ((hours * 60 + minutes) * 60)) = of_int ((hours * 60 + minutes) * 60)"
    using assms by (intro dbl_of_int) simp
  then show ?thesis by (simp add: baseMinutes_exact [OF assms])
qed

lemma elapsedRealSeconds_before:
  assumes "nowMs \<le> of_int T0"
  shows "elapsedRealSeconds T0 nowMs = 0"
proof -
  have "dbl (nowMs - of_int T0) \<le> 0" using assms by (intro dbl_nonpos) simp
  then have "dbl (nowMs - of_int T0) / 1000 \<le> 0" by simp
  then have "dbl (dbl (nowMs - of_int T0) / 1000) \<le> 0" by (rule dbl_nonpos)
  then show ?thesis by (simp add: elapsedRealSeconds_def)
qed



lemma minute_of_day_parts:
  fixes a :: int
  shows "a div 60 div 60 = a div 3600" and "a div 60 mod 60 = a mod 3600 div 60"
proof -
  show "a div 60 div 60 = a div 3600" using zdiv_zmult2_eq [of 60 a 60] by simp
  have "a mod 3600 = 60 * (a div 60 mod 60) + a mod 60"
    using zmod_zmult2_eq [of 60 a 60] by simp
  then have "a mod 3600 div 60 = (a mod 60 + 60 * (a div 60 mod 60)) div 60"
    by (simp add: add.commute)
  also have "\<dots> = a div 60 mod 60" by simp
  finally show "a div 60 mod 60 = a mod 3600 div 60" by simp
qed

lemma jsRemInt_small:
  assumes "0 \<le> k" and "k < l"
  shows "jsRemInt k l = k"
  using assms by (cases "k = 0") (simp_all add: jsRemInt_def)

lemma liveClock_clock:
  assumes "0 \<le> t"
  shows "clock (liveClockFrom t) = minuteLabel \<lfloor>normalizeMinecraftSeconds t / 60\<rfloor>"
proof -
  define ns where "ns = normalizeMinecraftSeconds t"
  define a where "a = \<lfloor>ns\<rfloor>"
  have r: "0 \<le> ns" "ns < 86400" unfolding ns_def by (rule normalizeMinecraftSeconds_range)+
  from normalizeMinecraftSeconds_grid [OF assms] obtain j where j: "ns = of_int j / 2 ^ 36"
    by (auto simp: ns_def)
  have a: "0 \<le> a" "a < 86400" unfolding a_def using r by (simp_all add: floor_less_iff)
  have "ns * 2 ^ 36 < 86400 * 2 ^ 36" using r(2) by simp
  then have small: "ns * 2 ^ 36 < 2 ^ 53" by simp
  have "\<lfloor>dbl (ns / of_int 3600)\<rfloor> = \<lfloor>ns / of_int 3600\<rfloor>"
    using j r(1) small by (rule floor_dbl_grid) simp
  also have "\<dots> = a div 3600" using floor_divide_of_int [of 3600 ns] by (simp add: a_def)
  finally have h: "\<lfloor>dbl (ns / 3600)\<rfloor> = a div 3600" by simp
  have "0 \<le> a div 3600" "a div 3600 < 24" using a by simp_all
  then have hh: "jsRemInt (a div 3600) 24 = a div 3600" by (rule jsRemInt_small)
  define s where "s = jsRem ns 3600"
  have s_eq: "s = ns - of_int (3600 * (a div 3600))"
    unfolding s_def using r(1) floor_divide_of_int [of 3600 ns] by (simp add: jsRem_nonneg a_def)
  have sr: "0 \<le> s" "s < 3600" unfolding s_def using r(1) by (simp_all add: jsRem_range)
  from jsRem_grid [OF j r(1), of 3600] obtain i where i: "s = of_int i / 2 ^ 36"
    by (auto simp: s_def)
  have "s * 2 ^ 36 < 3600 * 2 ^ 36" using sr(2) by simp
  then have ssmall: "s * 2 ^ 36 < 2 ^ 53" by simp
  have "\<lfloor>s\<rfloor> = a - 3600 * (a div 3600)" unfolding s_eq a_def by (simp only: floor_diff_of_int)
  then have fs: "\<lfloor>s\<rfloor> = a mod 3600" by (simp add: minus_mult_div_eq_mod)
  have "\<lfloor>dbl (s / of_int 60)\<rfloor> = \<lfloor>s / of_int 60\<rfloor>"
    using i sr(1) ssmall by (rule floor_dbl_grid) simp
  also have "\<dots> = a mod 3600 div 60" using floor_divide_of_int [of 60 s] by (simp add: fs)
  finally have m: "\<lfloor>dbl (s / 60)\<rfloor> = a mod 3600 div 60" by simp
  have q: "\<lfloor>ns / 60\<rfloor> = a div 60" using floor_divide_of_int [of 60 ns] by (simp add: a_def)
  show ?thesis
    unfolding liveClockFrom_def Let_def ns_def [symmetric] s_def [symmetric]
    by (simp add: h hh m q minuteLabel_def minute_of_day_parts)
qed

lemma liveClock_details:
  assumes "0 \<le> t"
    and margin: "normalizeMinecraftSeconds t = 60 * of_int Q \<or>
       (60 * of_int Q + 1 / 2 ^ 35 \<le> normalizeMinecraftSeconds t \<and>
        normalizeMinecraftSeconds t \<le> 60 * of_int Q + 60 - 1 / 2 ^ 35)"
  shows "phaseDetails (liveClockFrom t) = detailsOfMinute Q"
    and "\<lfloor>normalizeMinecraftSeconds t / 60\<rfloor> = Q"
proof -
  define ns where "ns = normalizeMinecraftSeconds t"
  define x where "x = ns / 60"
  have r: "0 \<le> ns" "ns < 86400" unfolding ns_def by (rule normalizeMinecraftSeconds_range)+
  have pd: "phaseDetails (liveClockFrom t) = getMinecraftPhaseFromMinutes (dbl x)"
    by (simp add: liveClockFrom_def Let_def getPhasePreviewFromMinutes_def ns_def x_def)
  have Qx: "of_int Q \<le> x" "x < of_int Q + 1"
    using margin by (auto simp: x_def ns_def)
  then show fl: "\<lfloor>normalizeMinecraftSeconds t / 60\<rfloor> = Q"
    by (simp add: floor_eq_iff x_def ns_def)
  have "of_int Q < (1440::rat)" "(- 1::rat) < of_int Q" using Qx r by (simp_all add: x_def)
  then have Q: "0 \<le> Q" "Q < 1440" by simp_all
  then have Qmod: "Q mod 1440 = Q" by simp
  from margin show "phaseDetails (liveClockFrom t) = detailsOfMinute Q"
  proof
    assume "normalizeMinecraftSeconds t = 60 * of_int Q"
    then have "x = of_int Q" by (simp add: x_def ns_def)
    moreover have "dbl (of_int Q) = of_int Q" using Q by (intro dbl_of_int) simp
    ultimately show ?thesis by (simp add: pd getPhase_of_int Qmod)
  next
    assume m: "60 * of_int Q + 1 / 2 ^ 35 \<le> normalizeMinecraftSeconds t \<and>
        normalizeMinecraftSeconds t \<le> 60 * of_int Q + 60 - 1 / 2 ^ 35"
    define \<mu> :: rat where "\<mu> = 1 / 2 ^ 35 / 60 - 1440 / 2 ^ 53"
    have x0: "0 \<le> x" "x < 1440" using r by (simp_all add: x_def)
    have "\<bar>dbl x - x\<bar> \<le> \<bar>x\<bar> / 2 ^ 53" by (rule dbl_error)
    also have "\<dots> \<le> 1440 / 2 ^ 53" using x0 by (simp add: divide_right_mono)
    finally have err: "\<bar>dbl x - x\<bar> \<le> 1440 / 2 ^ 53" .
    have xm: "of_int Q + 1 / 2 ^ 35 / 60 \<le> x" "x \<le> of_int Q + 1 - 1 / 2 ^ 35 / 60"
      using m by (simp_all add: x_def ns_def)
    have "getMinecraftPhaseFromMinutes (dbl x) = detailsOfMinute (Q mod 1440)"
    proof (rule getPhase_cell [where \<mu> = \<mu>])
      show "0 \<le> dbl x" using x0(1) by (rule dbl_nonneg)
      show "2880 / 2 ^ 53 < \<mu>" by (simp add: \<mu>_def)
      show "of_int Q + \<mu> \<le> dbl x" "dbl x \<le> of_int Q + 1 - \<mu>"
        using err xm unfolding \<mu>_def by linarith+
    qed
    then show ?thesis by (simp add: pd Qmod)
  qed
qed

subsection \<open>Validation\<close>

text \<open>
  Both derivations return a result exactly on the valid references, and the result is the
  computation on the parsed hour, minute and observation instant.
\<close>

lemma element_Cons2:
  "element (a # b # rest) 0 = Some a" "element (a # b # rest) (Suc 0) = Some b"
  by (simp_all add: element_def)

lemma deriveLive_valid:
  assumes "validReference dateGetTime row savedAtMs hours minutes"
  shows "deriveLiveMinecraftClock dateGetTime row nowMs =
           Some (liveClockFrom (totalSeconds hours minutes savedAtMs nowMs))"
proof -
  from assms obtain r time savedAt hoursPart minutesPart rest where
    "row = Some r" "ingame_time r = Some time" "ingame_time_saved_at r = Some savedAt"
    "savedAt \<noteq> []" "dateGetTime savedAt = Some savedAtMs"
    "split CHR '':'' time = hoursPart # minutesPart # rest"
    "hoursPart \<noteq> []" "minutesPart \<noteq> []"
    "parseInt hoursPart = Some hours" "parseInt minutesPart = Some minutes"
    "0 \<le> hours" "hours \<le> 23" "0 \<le> minutes" "minutes \<le> 59"
    unfolding validReference_def by blast
  moreover from this have "time \<noteq> []" by auto
  ultimately show ?thesis
    by (simp add: deriveLiveMinecraftClock_def optField_def falsy_def stringOf_def
        element_Cons2)
qed

lemma deriveAtDate_valid:
  assumes "validReference dateGetTime row savedAtMs hours minutes"
  shows "deriveMinecraftClockAtDate dateGetTime row target =
           Some (getMinecraftPhaseFromMinutes (totalMinutes hours minutes savedAtMs target))"
proof -
  from assms obtain r time savedAt hoursPart minutesPart rest where
    "row = Some r" "ingame_time r = Some time" "ingame_time_saved_at r = Some savedAt"
    "savedAt \<noteq> []" "dateGetTime savedAt = Some savedAtMs"
    "split CHR '':'' time = hoursPart # minutesPart # rest"
    "hoursPart \<noteq> []" "minutesPart \<noteq> []"
    "parseInt hoursPart = Some hours" "parseInt minutesPart = Some minutes"
    "0 \<le> hours" "hours \<le> 23" "0 \<le> minutes" "minutes \<le> 59"
    unfolding validReference_def by blast
  moreover from this have "time \<noteq> []" by auto
  ultimately show ?thesis
    by (simp add: deriveMinecraftClockAtDate_def optField_def falsy_def stringOf_def
        element_Cons2)
qed

lemma element_SomeD:
  assumes "element parts 0 = Some a" and "element parts (Suc 0) = Some b"
  shows "\<exists>rest. parts = a # b # rest"
proof (cases parts)
  case Nil
  with assms show ?thesis by (simp add: element_def)
next
  case (Cons x xs)
  with assms show ?thesis by (cases xs) (auto simp: element_def split: if_splits)
qed

lemma deriveLive_Some:
  assumes "deriveLiveMinecraftClock dateGetTime row nowMs = Some res"
  shows "\<exists>savedAtMs hours minutes.
           validReference dateGetTime row savedAtMs hours minutes \<and>
           res = liveClockFrom (totalSeconds hours minutes savedAtMs nowMs)"
proof -
  from assms obtain r where r: "row = Some r"
    by (cases row) (auto simp: deriveLiveMinecraftClock_def optField_def falsy_def)
  from assms r obtain time savedAt where f: "ingame_time r = Some time" "time \<noteq> []"
      "ingame_time_saved_at r = Some savedAt" "savedAt \<noteq> []"
    by (cases "ingame_time r"; cases "ingame_time_saved_at r")
      (auto simp: deriveLiveMinecraftClock_def optField_def falsy_def split: if_splits)
  from assms r f obtain savedAtMs where s: "dateGetTime savedAt = Some savedAtMs"
    by (cases "dateGetTime savedAt")
      (auto simp: deriveLiveMinecraftClock_def optField_def falsy_def stringOf_def)
  let ?parts = "split CHR '':'' time"
  from assms r f s obtain hp mp where p: "element ?parts 0 = Some hp" "hp \<noteq> []"
      "element ?parts (Suc 0) = Some mp" "mp \<noteq> []"
    by (cases "element ?parts 0"; cases "element ?parts (Suc 0)")
      (auto simp: deriveLiveMinecraftClock_def optField_def falsy_def stringOf_def Let_def
        split: if_splits)
  then obtain rest where m: "?parts = hp # mp # rest"
    using element_SomeD by blast
  from assms r f s p obtain hours minutes where
    h: "parseInt hp = Some hours" "parseInt mp = Some minutes"
      "0 \<le> hours" "hours \<le> 23" "0 \<le> minutes" "minutes \<le> 59"
      "res = liveClockFrom (totalSeconds hours minutes savedAtMs nowMs)"
    by (cases "parseInt hp"; cases "parseInt mp")
      (auto simp: deriveLiveMinecraftClock_def optField_def falsy_def stringOf_def Let_def
        split: if_splits)
  have "validReference dateGetTime row savedAtMs hours minutes"
    unfolding validReference_def using r f s m p h by blast
  with h show ?thesis by blast
qed





lemma validReferenceI:
  assumes "ingame_time r = Some time" and "ingame_time_saved_at r = Some savedAt"
    and "savedAt \<noteq> []" and "dateGetTime savedAt = Some T0"
    and "split CHR '':'' time = hp # mp # rest" and "hp \<noteq> []" and "mp \<noteq> []"
    and "parseInt hp = Some hours" and "parseInt mp = Some minutes"
    and "0 \<le> hours" and "hours \<le> 23" and "0 \<le> minutes" and "minutes \<le> 59"
  shows "validReference dateGetTime (Some r) T0 hours minutes"
  unfolding validReference_def using assms by blast

lemma split_0600: "split CHR '':'' ''06:00'' = [''06'', ''00'']"
  by code_simp

lemma split_0000: "split CHR '':'' ''00:00'' = [''00'', ''00'']"
  by code_simp

lemma parseInt_06: "parseInt ''06'' = Some 6"
  by code_simp

lemma parseInt_00: "parseInt ''00'' = Some 0"
  by code_simp

lemma null_agreement:
  "(deriveLiveMinecraftClock dateGetTime row nowMs = None) =
     (deriveMinecraftClockAtDate dateGetTime row target = None)"
  unfolding deriveLiveMinecraftClock_def deriveMinecraftClockAtDate_def
  by (simp add: Let_def split: option.split)

lemma deriveLive_None:
  assumes "\<nexists>savedAtMs hours minutes. validReference dateGetTime row savedAtMs hours minutes"
  shows "deriveLiveMinecraftClock dateGetTime row nowMs = None"
proof (cases "deriveLiveMinecraftClock dateGetTime row nowMs")
  case None
  then show ?thesis .
next
  case (Some res)
  from deriveLive_Some [OF this] assms show ?thesis by blast
qed

lemma deriveAtDate_None:
  assumes "\<nexists>savedAtMs hours minutes. validReference dateGetTime row savedAtMs hours minutes"
  shows "deriveMinecraftClockAtDate dateGetTime row target = None"
  using deriveLive_None [OF assms, of 0] null_agreement [of dateGetTime row 0 target] by simp

lemma validReference_cases:
  assumes "validReference dateGetTime row savedAtMs hours minutes"
  obtains r time savedAt hoursPart minutesPart where
    "row = Some r" "ingame_time r = Some time" "ingame_time_saved_at r = Some savedAt"
    "savedAt \<noteq> []" "dateGetTime savedAt = Some savedAtMs"
    "element (split CHR '':'' time) 0 = Some hoursPart"
    "element (split CHR '':'' time) 1 = Some minutesPart"
    "parseInt hoursPart = Some hours" "parseInt minutesPart = Some minutes"
    "hours \<le> 23" "minutes \<le> 59"
proof -
  from assms obtain r time savedAt hoursPart minutesPart rest where
    "row = Some r" "ingame_time r = Some time" "ingame_time_saved_at r = Some savedAt"
    "savedAt \<noteq> []" "dateGetTime savedAt = Some savedAtMs"
    "split CHR '':'' time = hoursPart # minutesPart # rest"
    "parseInt hoursPart = Some hours" "parseInt minutesPart = Some minutes"
    "hours \<le> 23" "minutes \<le> 59"
    unfolding validReference_def by blast
  then show ?thesis using that [of r time savedAt hoursPart minutesPart]
    by (simp add: element_Cons2)
qed

text \<open>
  Claim C6. When the reference is absent, or its time of day or its observation timestamp
  is missing, or the timestamp does not parse to an instant, or the hour of the time of
  day reads as 24, or its minute reads as 60, both derivations return null. The model has
  no other outcome for them: no operation on this path of the source raises.
\<close>

theorem invalid_reference_gives_null:
  assumes "row = None \<or>
           (\<exists>r. row = Some r \<and>
              (ingame_time r = None \<or> ingame_time r = Some [] \<or>
               ingame_time_saved_at r = None \<or> ingame_time_saved_at r = Some [] \<or>
               (\<exists>savedAt. ingame_time_saved_at r = Some savedAt \<and>
                  dateGetTime savedAt = None) \<or>
               (\<exists>time hoursPart. ingame_time r = Some time \<and>
                  element (split CHR '':'' time) 0 = Some hoursPart \<and>
                  parseInt hoursPart = Some 24) \<or>
               (\<exists>time minutesPart. ingame_time r = Some time \<and>
                  element (split CHR '':'' time) 1 = Some minutesPart \<and>
                  parseInt minutesPart = Some 60)))"
  shows "deriveLiveMinecraftClock dateGetTime row nowMs = None \<and>
         deriveMinecraftClockAtDate dateGetTime row target = None"
proof -
  have "\<nexists>savedAtMs hours minutes. validReference dateGetTime row savedAtMs hours minutes"
  proof
    assume "\<exists>savedAtMs hours minutes. validReference dateGetTime row savedAtMs hours minutes"
    then obtain savedAtMs hours minutes where
      "validReference dateGetTime row savedAtMs hours minutes" by blast
    then show False
      using assms by (elim validReference_cases) (auto simp: element_def)
  qed
  then show ?thesis
    by (simp add: deriveLive_None deriveAtDate_None)
qed

lemma split_2400: "split CHR '':'' ''24:00'' = [''24'', ''00'']"
  by code_simp

lemma split_1260: "split CHR '':'' ''12:60'' = [''12'', ''60'']"
  by code_simp

lemma parseInt_24: "parseInt ''24'' = Some 24"
  by code_simp

lemma parseInt_60: "parseInt ''60'' = Some 60"
  by code_simp

theorem invalid_reference_gives_null_witness:
  "deriveLiveMinecraftClock exampleDate
     (Some (exampleRow ''24:00'' ''2024-01-01T00:00:00Z'')) 1704067227000 = None \<and>
   deriveMinecraftClockAtDate exampleDate
     (Some (exampleRow ''24:00'' ''2024-01-01T00:00:00Z'')) 1704067227000 = None \<and>
   deriveLiveMinecraftClock exampleDate
     (Some (exampleRow ''12:60'' ''2024-01-01T00:00:00Z'')) 1704067227000 = None \<and>
   deriveMinecraftClockAtDate exampleDate
     (Some (exampleRow ''12:60'' ''2024-01-01T00:00:00Z'')) 1704067227000 = None \<and>
   deriveLiveMinecraftClock exampleDate
     (Some (exampleRow ''06:00'' ''yesterday'')) 1704067227000 = None \<and>
   deriveMinecraftClockAtDate exampleDate
     (Some (exampleRow ''06:00'' ''yesterday'')) 1704067227000 = None \<and>
   deriveLiveMinecraftClock exampleDate None 1704067227000 = None \<and>
   deriveMinecraftClockAtDate exampleDate None 1704067227000 = None"
proof -
  have a: "deriveLiveMinecraftClock exampleDate
     (Some (exampleRow ''24:00'' ''2024-01-01T00:00:00Z'')) 1704067227000 = None \<and>
   deriveMinecraftClockAtDate exampleDate
     (Some (exampleRow ''24:00'' ''2024-01-01T00:00:00Z'')) 1704067227000 = None"
    by (rule invalid_reference_gives_null)
      (simp add: exampleRow_def split_2400 element_def parseInt_24)
  have b: "deriveLiveMinecraftClock exampleDate
     (Some (exampleRow ''12:60'' ''2024-01-01T00:00:00Z'')) 1704067227000 = None \<and>
   deriveMinecraftClockAtDate exampleDate
     (Some (exampleRow ''12:60'' ''2024-01-01T00:00:00Z'')) 1704067227000 = None"
    by (rule invalid_reference_gives_null)
      (simp add: exampleRow_def split_1260 element_def parseInt_60)
  have c: "deriveLiveMinecraftClock exampleDate
     (Some (exampleRow ''06:00'' ''yesterday'')) 1704067227000 = None \<and>
   deriveMinecraftClockAtDate exampleDate
     (Some (exampleRow ''06:00'' ''yesterday'')) 1704067227000 = None"
    by (rule invalid_reference_gives_null) (simp add: exampleRow_def exampleDate_def)
  have d: "deriveLiveMinecraftClock exampleDate None 1704067227000 = None \<and>
   deriveMinecraftClockAtDate exampleDate None 1704067227000 = None"
    by (rule invalid_reference_gives_null) simp
  from a b c d show ?thesis by blast
qed

lemma split_segment_no_separator:
  "s \<in> set (split c xs) \<Longrightarrow> c \<notin> set s"
proof (induction xs arbitrary: s)
  case Nil
  then show ?case by simp
next
  case (Cons x xs)
  show ?case
  proof (cases "x = c")
    case True
    with Cons show ?thesis by auto
  next
    case False
    with Cons show ?thesis by (cases "split c xs") auto
  qed
qed

lemma split_no_separator:
  "c \<notin> set s \<Longrightarrow> split c s = [s]"
  by (induction s) auto

lemma split_at_first_separator:
  "c \<notin> set a \<Longrightarrow> split c (a @ c # b) = a # split c b"
  by (induction a) auto

lemma split_two_segments:
  assumes "split c xs = a # b # rest"
  shows "split c (a @ c # b) = [a, b]"
proof -
  have "a \<in> set (split c xs)" "b \<in> set (split c xs)" using assms by simp_all
  then have "c \<notin> set a" "c \<notin> set b" by (simp_all only: split_segment_no_separator not_False_eq_True)
  then show ?thesis by (simp add: split_at_first_separator split_no_separator)
qed

text \<open>
  Claim C10. A time of day with more than two segments between colons, such as
  \<open>06:30:45\<close>, is not rejected: when its first two segments are not empty and read as
  an hour in \<open>[0,23]\<close> and a minute in \<open>[0,59]\<close> (and the observation timestamp parses),
  both derivations return a result, computed from that hour and minute only; it is the
  result for the time of day made of the first two segments alone.
\<close>

theorem extra_segments_ignored:
  assumes "ingame_time r = Some time"
    and "split CHR '':'' time = hoursPart # minutesPart # extra"
    and "hoursPart \<noteq> []" and "minutesPart \<noteq> []"
    and "parseInt hoursPart = Some hours" and "parseInt minutesPart = Some minutes"
    and "0 \<le> hours" and "hours \<le> 23" and "0 \<le> minutes" and "minutes \<le> 59"
    and "ingame_time_saved_at r = Some savedAt" and "savedAt \<noteq> []"
    and "dateGetTime savedAt = Some T0"
  shows "deriveLiveMinecraftClock dateGetTime (Some r) nowMs =
           Some (liveClockFrom (totalSeconds hours minutes T0 nowMs)) \<and>
         deriveMinecraftClockAtDate dateGetTime (Some r) target =
           Some (getMinecraftPhaseFromMinutes (totalMinutes hours minutes T0 target)) \<and>
         deriveLiveMinecraftClock dateGetTime (Some r) nowMs =
           deriveLiveMinecraftClock dateGetTime
             (Some (r\<lparr>ingame_time := Some (hoursPart @ '':'' @ minutesPart)\<rparr>)) nowMs \<and>
         deriveMinecraftClockAtDate dateGetTime (Some r) target =
           deriveMinecraftClockAtDate dateGetTime
             (Some (r\<lparr>ingame_time := Some (hoursPart @ '':'' @ minutesPart)\<rparr>)) target"
proof -
  let ?r2 = "r\<lparr>ingame_time := Some (hoursPart @ '':'' @ minutesPart)\<rparr>"
  have v: "validReference dateGetTime (Some r) T0 hours minutes"
    using assms by (intro validReferenceI [where time = time and rest = extra])
  have "split CHR '':'' (hoursPart @ '':'' @ minutesPart) = hoursPart # minutesPart # []"
    using split_two_segments [OF assms(2)] by simp
  then have v2: "validReference dateGetTime (Some ?r2) T0 hours minutes"
    using assms
    by (intro validReferenceI [where time = "hoursPart @ '':'' @ minutesPart" and rest = "[]"])
      simp_all
  show ?thesis
    by (simp only: deriveLive_valid [OF v] deriveLive_valid [OF v2]
        deriveAtDate_valid [OF v] deriveAtDate_valid [OF v2])
qed

subsection \<open>Concrete scenarios\<close>

lemma liveClockFrom_of_int:
  assumes "0 \<le> i"
  shows "liveClockFrom (of_int i) =
           \<lparr>clock = minuteLabel (i mod 86400 div 60),
            phaseDetails = detailsOfMinute (i mod 86400 div 60)\<rparr>"
proof -
  define n where "n = i mod 86400"
  define Q where "Q = n div 60"
  have t: "(0::rat) \<le> of_int i" using assms by simp
  have ns: "normalizeMinecraftSeconds (of_int i) = of_int n"
    by (simp add: normalizeMinecraftSeconds_of_int n_def)
  have n: "n = 60 * Q + n mod 60" by (simp add: Q_def)
  have margin: "normalizeMinecraftSeconds (of_int i) = 60 * of_int Q \<or>
       (60 * of_int Q + 1 / 2 ^ 35 \<le> normalizeMinecraftSeconds (of_int i) \<and>
        normalizeMinecraftSeconds (of_int i) \<le> 60 * of_int Q + 60 - 1 / 2 ^ 35)"
  proof (cases "n mod 60 = 0")
    case True
    with n have "n = 60 * Q" by simp
    then have "(of_int n :: rat) = 60 * of_int Q" by simp
    then show ?thesis by (simp only: ns) simp
  next
    case False
    moreover have "0 \<le> n mod 60" "n mod 60 < 60" by simp_all
    ultimately have "60 * Q + 1 \<le> n" "n \<le> 60 * Q + 59" using n by linarith+
    then have "(of_int (60 * Q + 1) :: rat) \<le> of_int n" "(of_int n :: rat) \<le> of_int (60 * Q + 59)"
      by (simp_all only: of_int_le_iff)
    then have "60 * of_int Q + 1 \<le> (of_int n :: rat)" "(of_int n :: rat) \<le> 60 * of_int Q + 59"
      by simp_all
    moreover have "(1::rat) / 2 ^ 35 \<le> 1" by simp
    ultimately show ?thesis unfolding ns by linarith
  qed
  have "clock (liveClockFrom (of_int i)) = minuteLabel Q"
    using liveClock_clock [OF t] liveClock_details(2) [OF t margin] by simp
  moreover have "phaseDetails (liveClockFrom (of_int i)) = detailsOfMinute Q"
    by (rule liveClock_details(1) [OF t margin])
  ultimately show ?thesis
    unfolding Q_def n_def by (cases "liveClockFrom (of_int i)") simp
qed

lemma minuteLabel_392: "minuteLabel 392 = ''06:32''"
  by code_simp

lemma minuteLabel_60: "minuteLabel 60 = ''01:00''"
  by code_simp

lemma liveClockFrom_23544:
  "liveClockFrom 23544 =
     \<lparr>clock = ''06:32'', phaseDetails = \<lparr>phase = Jour, timeLabel = Some ''06:32''\<rparr>\<rparr>"
  using liveClockFrom_of_int [of 23544]
  by (simp add: detailsOfMinute_def phaseOfMinute_def minuteLabel_392)

lemma liveClockFrom_3600:
  "liveClockFrom 3600 =
     \<lparr>clock = ''01:00'', phaseDetails = \<lparr>phase = Nuit, timeLabel = Some ''01:00''\<rparr>\<rparr>"
  using liveClockFrom_of_int [of 3600]
  by (simp add: detailsOfMinute_def phaseOfMinute_def minuteLabel_60)

lemma elapsedRealSeconds_27: "elapsedRealSeconds T0 (of_int T0 + 27000) = 27"
  by (simp add: elapsedRealSeconds_def dbl_numeral)

lemma elapsedRealSeconds_50: "elapsedRealSeconds T0 (of_int T0 + 50000) = 50"
  by (simp add: elapsedRealSeconds_def dbl_numeral)

text \<open>
  Claim C3. A reference time of day \<open>06:00\<close> observed at an instant \<open>T0\<close> (for example
  2024-01-01T00:00:00Z) and queried 27 real seconds later: 27 times 72, that is 1944,
  simulated seconds are added to 360 simulated minutes, and the live clock returns the
  phase day and the clock string \<open>06:32\<close>.
\<close>

theorem scenario_0600_plus_27_seconds:
  assumes "ingame_time r = Some ''06:00''" and "ingame_time_saved_at r = Some savedAt"
    and "savedAt \<noteq> []" and "dateGetTime savedAt = Some T0"
  shows "totalSeconds 6 0 T0 (of_int T0 + 27000) = 360 * 60 + 27 * 72 \<and>
         deriveLiveMinecraftClock dateGetTime (Some r) (of_int T0 + 27000) =
           Some \<lparr>clock = ''06:32'',
                 phaseDetails = \<lparr>phase = Jour, timeLabel = Some ''06:32''\<rparr>\<rparr>"
proof -
  have v: "validReference dateGetTime (Some r) T0 6 0"
    using assms split_0600 parseInt_06 parseInt_00
    by (intro validReferenceI [where time = "''06:00''" and hp = "''06''" and mp = "''00''"])
      simp_all
  have "dbl (dbl (dbl (of_int 6 * 60) + of_int 0) * 60) = of_int ((6 * 60 + 0) * 60)"
    by (rule baseSeconds_exact) simp_all
  then have t: "totalSeconds 6 0 T0 (of_int T0 + 27000) = 23544"
    by (simp add: totalSeconds_def elapsedRealSeconds_27 MINECRAFT_SECONDS_PER_REAL_SECOND_72
        dbl_numeral)
  show ?thesis
    using deriveLive_valid [OF v, of "of_int T0 + 27000"]
    by (simp only: t liveClockFrom_23544) simp
qed

theorem scenario_0600_plus_27_seconds_witness:
  "deriveLiveMinecraftClock exampleDate
     (Some (exampleRow ''06:00'' ''2024-01-01T00:00:00Z'')) 1704067227000 =
   Some \<lparr>clock = ''06:32'', phaseDetails = \<lparr>phase = Jour, timeLabel = Some ''06:32''\<rparr>\<rparr>"
  using scenario_0600_plus_27_seconds
    [of "exampleRow ''06:00'' ''2024-01-01T00:00:00Z''" "''2024-01-01T00:00:00Z''"
      exampleDate 1704067200000]
  by (simp add: exampleRow_def exampleDate_def)

text \<open>
  Claim C7. The dilation ratio is 72 simulated seconds for one real second, and a
  reference time of day \<open>00:00\<close> observed at \<open>T0\<close> and queried at exactly \<open>T0\<close> plus 50
  real seconds gives the simulated clock \<open>01:00\<close>.
\<close>

theorem one_hour_per_fifty_seconds:
  assumes "ingame_time r = Some ''00:00''" and "ingame_time_saved_at r = Some savedAt"
    and "savedAt \<noteq> []" and "dateGetTime savedAt = Some T0"
  shows "MINECRAFT_SECONDS_PER_REAL_SECOND = 72 \<and>
         clock (liveClockFrom (totalSeconds 0 0 T0 (of_int T0 + 50000))) = ''01:00'' \<and>
         deriveLiveMinecraftClock dateGetTime (Some r) (of_int T0 + 50000) =
           Some \<lparr>clock = ''01:00'',
                 phaseDetails = \<lparr>phase = Nuit, timeLabel = Some ''01:00''\<rparr>\<rparr>"
proof -
  have v: "validReference dateGetTime (Some r) T0 0 0"
    using assms split_0000 parseInt_00
    by (intro validReferenceI [where time = "''00:00''" and hp = "''00''" and mp = "''00''"])
      simp_all
  have r: "MINECRAFT_SECONDS_PER_REAL_SECOND = 72"
    by (rule MINECRAFT_SECONDS_PER_REAL_SECOND_72)
  have t: "totalSeconds 0 0 T0 (of_int T0 + 50000) = 3600"
    by (simp add: totalSeconds_def elapsedRealSeconds_50 r dbl_numeral)
  show ?thesis
    using deriveLive_valid [OF v, of "of_int T0 + 50000"] r
    by (simp only: t liveClockFrom_3600) simp
qed

theorem one_hour_per_fifty_seconds_witness:
  "deriveLiveMinecraftClock exampleDate
     (Some (exampleRow ''00:00'' ''2024-01-01T00:00:00Z'')) 1704067250000 =
   Some \<lparr>clock = ''01:00'', phaseDetails = \<lparr>phase = Nuit, timeLabel = Some ''01:00''\<rparr>\<rparr>"
  using one_hour_per_fifty_seconds
    [of "exampleRow ''00:00'' ''2024-01-01T00:00:00Z''" "''2024-01-01T00:00:00Z''"
      exampleDate 1704067200000]
  by (simp add: exampleRow_def exampleDate_def)

lemma totalSeconds_before:
  assumes "0 \<le> hours" and "hours \<le> 23" and "0 \<le> minutes" and "minutes \<le> 59"
    and "nowMs \<le> of_int T0"
  shows "totalSeconds hours minutes T0 nowMs = of_int ((hours * 60 + minutes) * 60)"
proof -
  have "dbl (of_int ((hours * 60 + minutes) * 60)) = of_int ((hours * 60 + minutes) * 60)"
    using assms(1-4) by (intro dbl_of_int) simp
  then show ?thesis
    unfolding totalSeconds_def Let_def baseSeconds_exact [OF assms(1-4)]
      elapsedRealSeconds_before [OF assms(5)]
    by simp
qed

lemma totalMinutes_before:
  assumes "0 \<le> hours" and "hours \<le> 23" and "0 \<le> minutes" and "minutes \<le> 59"
    and "target \<le> T0"
  shows "totalMinutes hours minutes T0 target = of_int (hours * 60 + minutes)"
proof -
  have "dbl (of_int (hours * 60 + minutes)) = of_int (hours * 60 + minutes)"
    using assms(1-4) by (intro dbl_of_int) simp
  moreover have "elapsedRealSeconds T0 (of_int target) = 0"
    using assms(5) by (intro elapsedRealSeconds_before) simp
  ultimately show ?thesis
    unfolding totalMinutes_def Let_def baseMinutes_exact [OF assms(1-4)] by simp
qed

lemma liveClockFrom_reference:
  fixes hours minutes :: int
  assumes "0 \<le> hours" and "hours \<le> 23" and "0 \<le> minutes" and "minutes \<le> 59"
  shows "liveClockFrom (of_int ((hours * 60 + minutes) * 60)) =
           \<lparr>clock = formatTwoDigits hours @ '':'' @ formatTwoDigits minutes,
            phaseDetails = getMinecraftPhaseFromMinutes (of_int (hours * 60 + minutes))\<rparr>"
proof -
  define q where "q = hours * 60 + minutes"
  have q: "0 \<le> q" "q < 1440" using assms by (simp_all add: q_def)
  then have "0 \<le> q * 60" "q * 60 < 86400" by simp_all
  then have "q * 60 mod 86400 div 60 = q" by simp
  then have l: "liveClockFrom (of_int (q * 60)) =
      \<lparr>clock = minuteLabel q, phaseDetails = detailsOfMinute q\<rparr>"
    using liveClockFrom_of_int [of "q * 60"] q by simp
  have "q div 60 = hours" "q mod 60 = minutes" using assms by (simp_all add: q_def)
  then have "minuteLabel q = formatTwoDigits hours @ '':'' @ formatTwoDigits minutes"
    by (simp add: minuteLabel_def)
  moreover have "getMinecraftPhaseFromMinutes (of_int q) = detailsOfMinute q"
    using q by (simp add: getPhase_of_int)
  ultimately show ?thesis using l by (simp add: q_def)
qed

subsection \<open>Queries before the observation\<close>

text \<open>
  Claim C4. For a valid reference observed at \<open>T0\<close> and a query instant not later than
  \<open>T0\<close>, both derivations take the elapsed real time as zero and return the reference
  time of day itself: the live clock shows the reference hour and minute, and both give
  the phase details of the reference minute. Nothing fails and the clock does not run
  backward.
\<close>

theorem query_before_observation:
  assumes "validReference dateGetTime row T0 hours minutes"
    and "nowMs \<le> of_int T0" and "target \<le> T0"
  shows "deriveLiveMinecraftClock dateGetTime row nowMs =
           Some \<lparr>clock = formatTwoDigits hours @ '':'' @ formatTwoDigits minutes,
                 phaseDetails = getMinecraftPhaseFromMinutes (of_int (hours * 60 + minutes))\<rparr> \<and>
         deriveMinecraftClockAtDate dateGetTime row target =
           Some (getMinecraftPhaseFromMinutes (of_int (hours * 60 + minutes))) \<and>
         timeLabel (getMinecraftPhaseFromMinutes (of_int (hours * 60 + minutes))) =
           Some (formatTwoDigits hours @ '':'' @ formatTwoDigits minutes) \<and>
         elapsedRealSeconds T0 nowMs = 0 \<and> elapsedRealSeconds T0 (of_int target) = 0"
proof -
  from assms(1) have range: "0 \<le> hours" "hours \<le> 23" "0 \<le> minutes" "minutes \<le> 59"
    unfolding validReference_def by blast+
  have e1: "elapsedRealSeconds T0 nowMs = 0"
    using assms(2) by (rule elapsedRealSeconds_before)
  have e2: "elapsedRealSeconds T0 (of_int target) = 0"
    using assms(3) by (intro elapsedRealSeconds_before) simp
  have live: "deriveLiveMinecraftClock dateGetTime row nowMs =
           Some \<lparr>clock = formatTwoDigits hours @ '':'' @ formatTwoDigits minutes,
                 phaseDetails = getMinecraftPhaseFromMinutes (of_int (hours * 60 + minutes))\<rparr>"
    using deriveLive_valid [OF assms(1), of nowMs]
    by (simp only: totalSeconds_before [OF range assms(2)] liveClockFrom_reference [OF range])
  have at: "deriveMinecraftClockAtDate dateGetTime row target =
           Some (getMinecraftPhaseFromMinutes (of_int (hours * 60 + minutes)))"
    using deriveAtDate_valid [OF assms(1), of target]
    by (simp only: totalMinutes_before [OF range assms(3)])
  define q where "q = hours * 60 + minutes"
  have "0 \<le> q" "q < 1440" using range by (simp_all add: q_def)
  then have "q mod 1440 = q" by simp
  moreover have "q div 60 = hours" "q mod 60 = minutes"
    using range by (simp_all add: q_def)
  ultimately have "timeLabel (getMinecraftPhaseFromMinutes (of_int q)) =
           Some (formatTwoDigits hours @ '':'' @ formatTwoDigits minutes)"
    by (simp add: getPhase_of_int detailsOfMinute_def minuteLabel_def)
  then have "timeLabel (getMinecraftPhaseFromMinutes (of_int (hours * 60 + minutes))) =
           Some (formatTwoDigits hours @ '':'' @ formatTwoDigits minutes)"
    by (simp only: q_def)
  with live at e1 e2 show ?thesis by blast
qed

lemma example_valid_0600:
  "validReference exampleDate (Some (exampleRow ''06:00'' ''2024-01-01T00:00:00Z''))
     1704067200000 6 0"
  using split_0600 parseInt_06 parseInt_00
  by (intro validReferenceI [where time = "''06:00''" and hp = "''06''" and mp = "''00''"])
    (simp_all add: exampleRow_def exampleDate_def)

lemma format_0600: "formatTwoDigits 6 = ''06''" "formatTwoDigits 0 = ''00''"
  by code_simp+

lemma minuteLabel_360: "minuteLabel 360 = ''06:00''"
  by code_simp

lemma phase_360: "getMinecraftPhaseFromMinutes 360 = \<lparr>phase = Aube, timeLabel = Some ''06:00''\<rparr>"
  using getPhase_of_int [of 360]
  by (simp add: detailsOfMinute_def phaseOfMinute_def minuteLabel_360)

theorem query_before_observation_witness:
  "validReference exampleDate (Some (exampleRow ''06:00'' ''2024-01-01T00:00:00Z''))
     1704067200000 6 0 \<and>
   deriveLiveMinecraftClock exampleDate
     (Some (exampleRow ''06:00'' ''2024-01-01T00:00:00Z'')) 1704067100000 =
     Some \<lparr>clock = ''06:00'', phaseDetails = \<lparr>phase = Aube, timeLabel = Some ''06:00''\<rparr>\<rparr> \<and>
   deriveMinecraftClockAtDate exampleDate
     (Some (exampleRow ''06:00'' ''2024-01-01T00:00:00Z'')) 1704067100000 =
     Some \<lparr>phase = Aube, timeLabel = Some ''06:00''\<rparr>"
  using query_before_observation [OF example_valid_0600, of 1704067100000 1704067100000]
    example_valid_0600
  by (simp add: format_0600 phase_360)

lemma split_063045: "split CHR '':'' ''06:30:45'' = [''06'', ''30'', ''45'']"
  by code_simp

lemma parseInt_30: "parseInt ''30'' = Some 30"
  by code_simp

lemma minuteLabel_390: "minuteLabel 390 = ''06:30''"
  by code_simp

lemma liveClockFrom_0630:
  "liveClockFrom 23400 =
     \<lparr>clock = ''06:30'', phaseDetails = \<lparr>phase = Jour, timeLabel = Some ''06:30''\<rparr>\<rparr>"
  using liveClockFrom_of_int [of 23400]
  by (simp add: detailsOfMinute_def phaseOfMinute_def minuteLabel_390)

lemma phase_390:
  "getMinecraftPhaseFromMinutes 390 = \<lparr>phase = Jour, timeLabel = Some ''06:30''\<rparr>"
  using getPhase_of_int [of 390]
  by (simp add: detailsOfMinute_def phaseOfMinute_def minuteLabel_390)

theorem extra_segments_ignored_witness:
  "deriveLiveMinecraftClock exampleDate
     (Some (exampleRow ''06:30:45'' ''2024-01-01T00:00:00Z'')) 1704067200000 =
     Some \<lparr>clock = ''06:30'', phaseDetails = \<lparr>phase = Jour, timeLabel = Some ''06:30''\<rparr>\<rparr> \<and>
   deriveMinecraftClockAtDate exampleDate
     (Some (exampleRow ''06:30:45'' ''2024-01-01T00:00:00Z'')) 1704067200000 =
     Some \<lparr>phase = Jour, timeLabel = Some ''06:30''\<rparr>"
proof -
  have "totalSeconds 6 30 1704067200000 1704067200000 = 23400"
    using totalSeconds_before [of 6 30 "1704067200000" 1704067200000] by simp
  moreover have "totalMinutes 6 30 1704067200000 1704067200000 = 390"
    using totalMinutes_before [of 6 30 "1704067200000" 1704067200000] by simp
  ultimately show ?thesis
    using extra_segments_ignored [of "exampleRow ''06:30:45'' ''2024-01-01T00:00:00Z''"
        "''06:30:45''" "''06''" "''30''" "[''45'']" 6 30 "''2024-01-01T00:00:00Z''" exampleDate
        1704067200000 1704067200000 1704067200000]
    by (simp add: exampleRow_def exampleDate_def split_063045 parseInt_06 parseInt_30
        liveClockFrom_0630 phase_390)
qed

subsection \<open>The clock string\<close>

lemma exampleDate_epoch: "exampleDate ''1970-01-01T00:00:00Z'' = Some 0"
  by code_simp

lemma seconds_per_day: "MINECRAFT_SECONDS_PER_DAY = 86400"
  by (simp add: MINECRAFT_SECONDS_PER_DAY_def MINECRAFT_MINUTES_PER_DAY_def)


lemma example_valid_0000_epoch:
  "validReference exampleDate (Some (exampleRow ''00:00'' ''1970-01-01T00:00:00Z'')) 0 0 0"
  using split_0000 parseInt_00 exampleDate_epoch
  by (intro validReferenceI [where time = "''00:00''" and hp = "''00''" and mp = "''00''"])
    (simp_all add: exampleRow_def)












subsection \<open>Clock string and time label\<close>

lemma minutes_per_day: "MINECRAFT_MINUTES_PER_DAY = 1440"
  by (simp add: MINECRAFT_MINUTES_PER_DAY_def)

lemma minuteLabel_608: "minuteLabel 608 = ''10:08''"
  by code_simp

lemma minuteLabel_609: "minuteLabel 609 = ''10:09''"
  by code_simp

lemma totalSeconds_0000_late:
  "totalSeconds 0 0 0 (8718783610879997 / 17179869184) = 36540 - 1 / 2 ^ 36"
proof -
  have a: "dbl (8718783610879997 / 17179869184 - of_int 0) = 8718783610879997 / 17179869184"
    using dbl_dyadic [of 8718783610879997 34] by simp
  have b: "dbl (8718783610879997 / 17179869184 / 1000) = 8928034417541117 / 17592186044416"
    by (rule dbl_eqI [where a = 44 and b = 0 and k = 8928034417541117]) simp_all
  have e: "elapsedRealSeconds 0 (8718783610879997 / 17179869184) =
      8928034417541117 / 17592186044416"
    unfolding elapsedRealSeconds_def a b by simp
  have c: "dbl (8928034417541117 / 17592186044416 * 72) = 36540 - 1 / 2 ^ 36"
    by (rule dbl_eqI [where a = 37 and b = 0 and k = 5022019359866878]) simp_all
  have base: "dbl (dbl (dbl (of_int 0 * 60) + of_int 0) * 60) = of_int ((0 * 60 + 0) * 60)"
    by (rule baseSeconds_exact) simp_all
  have d: "dbl (of_int ((0 * 60 + 0) * 60) + (36540 - 1 / 2 ^ 36)) = 36540 - 1 / 2 ^ 36"
    by (rule dbl_eqI [where a = 37 and b = 0 and k = 5022019359866878]) simp_all
  show ?thesis
    unfolding totalSeconds_def Let_def e MINECRAFT_SECONDS_PER_REAL_SECOND_72 c base d ..
qed

lemma normalize_0000_late: "normalizeMinecraftSeconds (36540 - 1 / 2 ^ 36) = 36540 - 1 / 2 ^ 36"
proof -
  have r: "jsRem (36540 - 1 / 2 ^ 36) 86400 = 36540 - 1 / 2 ^ 36"
    by (rule jsRem_small) simp_all
  have s: "dbl (36540 - 1 / 2 ^ 36 + 86400) = 122940 - 1 / 2 ^ 36"
    by (rule dbl_eqI [where a = 36 and b = 0 and k = 8448372469923839]) simp_all
  have w: "jsRem (122940 - 1 / 2 ^ 36) 86400 = 122940 - 1 / 2 ^ 36 - 86400"
    by (rule jsRem_wrap_once) simp_all
  show ?thesis
    unfolding normalizeMinecraftSeconds_def seconds_per_day r s w by simp
qed

lemma normalizedMinutes_0000_late: "normalizedMinutes (609 - 1 / 2 ^ 42) = 609"
proof -
  have r: "jsRem (609 - 1 / 2 ^ 42) 1440 = 609 - 1 / 2 ^ 42"
    by (rule jsRem_small) simp_all
  have s: "dbl (609 - 1 / 2 ^ 42 + 1440) = 2049"
    by (rule dbl_tieI [where a = 41 and b = 0 and k = 4505798650626048]) simp_all
  have w: "jsRem 2049 1440 = 2049 - 1440"
    by (rule jsRem_wrap_once) simp_all
  show ?thesis
    unfolding normalizedMinutes_def minutes_per_day r s w by simp
qed

text \<open>
  Claim C9 as stated fails. The reference \<open>00:00\<close> observed at the epoch and queried
  \<open>8718783610879997 / 2^34\<close> milliseconds later (507499.9999999998) has the normalized
  seconds \<open>36540 - 2^-36\<close>: the clock string is \<open>10:08\<close>. Their sixtieth is rounded to
  \<open>609 - 2^-42\<close>, and its sum with 1440 inside the phase lookup is rounded to 2049, so the
  time label is \<open>10:09\<close>.
\<close>

theorem clock_differs_from_timeLabel:
  "deriveLiveMinecraftClock exampleDate
     (Some (exampleRow ''00:00'' ''1970-01-01T00:00:00Z'')) (8718783610879997 / 17179869184) =
     Some \<lparr>clock = ''10:08'', phaseDetails = \<lparr>phase = Jour, timeLabel = Some ''10:09''\<rparr>\<rparr>"
proof -
  let ?t = "36540 - 1 / 2 ^ 36 :: rat"
  have t: "0 \<le> ?t" by simp
  have "\<lfloor>?t / 60\<rfloor> = 608" by (simp add: floor_eq_iff)
  then have c: "clock (liveClockFrom ?t) = minuteLabel 608"
    using liveClock_clock [OF t] unfolding normalize_0000_late by simp
  have m: "dbl (?t / 60) = 609 - 1 / 2 ^ 42"
    by (rule dbl_eqI [where a = 43 and b = 0 and k = 5356820650524670]) simp_all
  have "phaseDetails (liveClockFrom ?t) = getMinecraftPhaseFromMinutes (609 - 1 / 2 ^ 42)"
    unfolding liveClockFrom_def Let_def getPhasePreviewFromMinutes_def normalize_0000_late m
    by simp
  also have "\<dots> = detailsOfMinute 609"
    using normalizedMinutes_0000_late by (intro getPhase_from_normalized) simp_all
  finally have "liveClockFrom ?t =
      \<lparr>clock = ''10:08'', phaseDetails = \<lparr>phase = Jour, timeLabel = Some ''10:09''\<rparr>\<rparr>"
    using c by (cases "liveClockFrom ?t")
      (simp add: detailsOfMinute_def phaseOfMinute_def minuteLabel_608 minuteLabel_609)
  then show ?thesis
    using deriveLive_valid [OF example_valid_0000_epoch, of "8718783610879997 / 17179869184"]
    by (simp only: totalSeconds_0000_late)
qed

subsection \<open>Live phase and phase at a date\<close>

lemma minuteLabel_1057: "minuteLabel 1057 = ''17:37''"
  by code_simp

lemma minuteLabel_1056: "minuteLabel 1056 = ''17:36''"
  by code_simp

lemma ratio_minutes: "dbl (60 / MINECRAFT_HOUR_SECONDS) = 6 / 5 - 1 / 5 / 2 ^ 52"
  unfolding MINECRAFT_HOUR_SECONDS_def
  by (rule dbl_eqI [where a = 52 and b = 0 and k = 5404319552844595]) simp_all

lemma elapsedRealSeconds_far:
  "elapsedRealSeconds 1704067200000 (of_int 4472891128180833) = 4578495550444373 / 1024"
proof -
  have a: "dbl (of_int 4472891128180833 - of_int 1704067200000) = 4471187060980833"
    using dbl_of_int [of 4471187060980833] by simp
  have b: "dbl (4471187060980833 / 1000) = 4578495550444373 / 1024"
    by (rule dbl_eqI [where a = 10 and b = 0 and k = 4578495550444373]) simp_all
  show ?thesis unfolding elapsedRealSeconds_def a b by simp
qed

lemma totalSeconds_far:
  "totalSeconds 6 0 1704067200000 (of_int 4472891128180833) = of_int 321925468412220"
proof -
  have c: "dbl (4578495550444373 / 1024 * 72) = 321925468390620"
    by (rule dbl_eqI [where a = 4 and b = 0 and k = 5150807494249920]) simp_all
  have base: "dbl (dbl (dbl (of_int 6 * 60) + of_int 0) * 60) = of_int ((6 * 60 + 0) * 60)"
    by (rule baseSeconds_exact) simp_all
  have d: "dbl (of_int ((6 * 60 + 0) * 60) + 321925468390620) = of_int 321925468412220"
    by (rule dbl_eqI [where a = 4 and b = 0 and k = 5150807494595520]) simp_all
  show ?thesis
    unfolding totalSeconds_def Let_def elapsedRealSeconds_far
      MINECRAFT_SECONDS_PER_REAL_SECOND_72 c base d ..
qed

lemma totalMinutes_far:
  "totalMinutes 6 0 1704067200000 4472891128180833 = of_int 5365424473536 + 1 - 1 / 2 ^ 10"
proof -
  have c: "dbl (4578495550444373 / 1024 * (6 / 5 - 1 / 5 / 2 ^ 52)) =
      5494194660533247 / 1024"
    by (rule dbl_eqI [where a = 10 and b = 0 and k = 5494194660533247]) simp_all
  have base: "dbl (dbl (of_int 6 * 60) + of_int 0) = of_int (6 * 60 + 0)"
    by (rule baseMinutes_exact) simp_all
  have d: "dbl (of_int (6 * 60 + 0) + 5494194660533247 / 1024) =
      of_int 5365424473536 + 1 - 1 / 2 ^ 10"
    by (rule dbl_eqI [where a = 10 and b = 0 and k = 5494194660901887]) simp_all
  show ?thesis
    unfolding totalMinutes_def Let_def elapsedRealSeconds_far ratio_minutes c base d ..
qed

text \<open>
  Claim C2 as stated fails. For the reference \<open>06:00\<close> observed at 2024-01-01T00:00:00Z
  and the instant 4472891128180833 (4471187060980833 milliseconds later), the live clock
  computes the total 321925468412220 simulated seconds, minute 1057 of the day, which is
  dusk, and the phase-at-instant operation computes \<open>5365424473537 - 2^-10\<close> simulated
  minutes, minute 1056 of the day, which is day.
\<close>

theorem live_phase_differs_from_phase_at_date:
  "deriveLiveMinecraftClock exampleDate
     (Some (exampleRow ''06:00'' ''2024-01-01T00:00:00Z'')) (of_int 4472891128180833) =
     Some \<lparr>clock = ''17:37'',
           phaseDetails = \<lparr>phase = Crepuscule, timeLabel = Some ''17:37''\<rparr>\<rparr> \<and>
   deriveMinecraftClockAtDate exampleDate
     (Some (exampleRow ''06:00'' ''2024-01-01T00:00:00Z'')) 4472891128180833 =
     Some \<lparr>phase = Jour, timeLabel = Some ''17:36''\<rparr>"
proof -
  have "liveClockFrom (of_int 321925468412220) =
      \<lparr>clock = minuteLabel 1057, phaseDetails = detailsOfMinute 1057\<rparr>"
    using liveClockFrom_of_int [of 321925468412220] by simp
  then have live: "deriveLiveMinecraftClock exampleDate
     (Some (exampleRow ''06:00'' ''2024-01-01T00:00:00Z'')) (of_int 4472891128180833) =
     Some \<lparr>clock = ''17:37'',
           phaseDetails = \<lparr>phase = Crepuscule, timeLabel = Some ''17:37''\<rparr>\<rparr>"
    using deriveLive_valid [OF example_valid_0600, of "of_int 4472891128180833"]
    unfolding totalSeconds_far
    by (simp add: detailsOfMinute_def phaseOfMinute_def minuteLabel_1057)
  have "getMinecraftPhaseFromMinutes (of_int 5365424473536 + 1 - 1 / 2 ^ 10) =
      detailsOfMinute (5365424473536 mod 1440)"
    by (rule getPhase_cell [where \<mu> = "1 / 2 ^ 10"]) simp_all
  then have "deriveMinecraftClockAtDate exampleDate
     (Some (exampleRow ''06:00'' ''2024-01-01T00:00:00Z'')) 4472891128180833 =
     Some \<lparr>phase = Jour, timeLabel = Some ''17:36''\<rparr>"
    using deriveAtDate_valid [OF example_valid_0600, of 4472891128180833]
    unfolding totalMinutes_far
    by (simp add: detailsOfMinute_def phaseOfMinute_def minuteLabel_1056)
  with live show ?thesis by blast
qed

end
